theory Spec2Isabelle
  imports Complex_Main "HOL-Library.List_Lexorder" "HOL-Library.Product_Lexorder"
    "HOL-Library.Multiset"
begin

section \<open>Topological features of time series: the notebook's functions\<close>

text \<open>
  The functions of \<^verbatim>\<open>notebooks/feature engineering via tda.ipynb\<close>, one HOL
  definition per Python function. Finite float64 values are idealised as \<^typ>\<open>real\<close>
  (no rounding, no overflow, no signed zero); the non-finite values numpy produces
  without raising (division by zero, logarithm of zero or of a negative number) are
  kept as values of their own. Python exceptions are values of \<open>py_error\<close>.
\<close>

datatype py_error = IndexError | ValueError

subsection \<open>Python slices and ranges\<close>

text \<open>
  \<^verbatim>\<open>y[i:j]\<close>: a negative bound counts from the end, and both bounds are clipped to
  \<open>0 .. len(y)\<close>; an empty or inverted interval gives the empty sequence.
\<close>

definition py_slice_bound :: "nat \<Rightarrow> int \<Rightarrow> nat" where
  "py_slice_bound n i = (if i < 0 then nat (max 0 (int n + i)) else min n (nat i))"

definition py_slice :: "'a list \<Rightarrow> int \<Rightarrow> int \<Rightarrow> 'a list" where
  "py_slice y i j =
     (let a = py_slice_bound (length y) i; b = py_slice_bound (length y) j
      in drop a (take b y))"

text \<open>
  \<^verbatim>\<open>range(0, stop, step)\<close>: a zero step raises ValueError; the number of elements is
  computed as CPython does, separately for a positive and for a negative step.
\<close>

definition py_range_len :: "int \<Rightarrow> int \<Rightarrow> nat" where
  "py_range_len stop step =
     (if 0 < step then (if 0 < stop then nat (1 + (stop - 1) div step) else 0)
      else (if stop < 0 then nat (1 + (- 1 - stop) div (- step)) else 0))"

definition py_range :: "int \<Rightarrow> int \<Rightarrow> py_error + int list" where
  "py_range stop step =
     (if step = 0 then Inl ValueError
      else Inr (map (\<lambda>k. int k * step) [0..<py_range_len stop step]))"

subsection \<open>Function 1: \<open>sliding_windows\<close>\<close>

text \<open>
  \<^verbatim>\<open>
  def sliding_windows(y, subwindow_length, subwindow_shift):
      return [y[i:i+subwindow_length]
              for i in range(0, len(y)-subwindow_length+1, subwindow_shift)]
  \<close>
\<close>

definition sliding_windows :: "'a list \<Rightarrow> int \<Rightarrow> int \<Rightarrow> py_error + 'a list list" where
  "sliding_windows y subwindow_length subwindow_shift =
     (case py_range (int (length y) - subwindow_length + 1) subwindow_shift of
        Inl e \<Rightarrow> Inl e
      | Inr offsets \<Rightarrow> Inr (map (\<lambda>i. py_slice y i (i + subwindow_length)) offsets))"


subsection \<open>Float values\<close>

text \<open>
  An entry of a diagram as the homology engine returns it is a float64 that is finite or
  infinite (\<open>entry\<close>); NaN entries are outside this model, since numpy leaves their
  place under \<open>unique\<close> and the sorts to the implementation. After the rows holding an
  infinity are removed, the entries are reals. A computed feature is an \<open>npfloat\<close>:
  numpy's division and logarithm return infinities and NaN with a warning, never an
  exception, and arithmetic then propagates them as IEEE 754 says.
\<close>

datatype entry = Num real | PosInf | NegInf

datatype npfloat = Fin real | PInf | NInf | NaN

fun np_isinf :: "entry \<Rightarrow> bool" where
  "np_isinf (Num x) = False"
| "np_isinf PosInf = True"
| "np_isinf NegInf = True"

fun the_num :: "entry \<Rightarrow> real" where
  "the_num (Num x) = x"

fun np_neg :: "npfloat \<Rightarrow> npfloat" where
  "np_neg (Fin x) = Fin (- x)"
| "np_neg PInf = NInf"
| "np_neg NInf = PInf"
| "np_neg NaN = NaN"

fun np_add :: "npfloat \<Rightarrow> npfloat \<Rightarrow> npfloat" where
  "np_add (Fin x) (Fin y) = Fin (x + y)"
| "np_add NaN b = NaN"
| "np_add a NaN = NaN"
| "np_add PInf NInf = NaN"
| "np_add NInf PInf = NaN"
| "np_add PInf b = PInf"
| "np_add NInf b = NInf"
| "np_add a PInf = PInf"
| "np_add a NInf = NInf"

definition inf_of_sign :: "bool \<Rightarrow> npfloat" where
  "inf_of_sign positive = (if positive then PInf else NInf)"

fun np_mul :: "npfloat \<Rightarrow> npfloat \<Rightarrow> npfloat" where
  "np_mul (Fin x) (Fin y) = Fin (x * y)"
| "np_mul NaN b = NaN"
| "np_mul a NaN = NaN"
| "np_mul (Fin x) PInf = (if x = 0 then NaN else inf_of_sign (0 < x))"
| "np_mul (Fin x) NInf = (if x = 0 then NaN else inf_of_sign (x < 0))"
| "np_mul PInf (Fin y) = (if y = 0 then NaN else inf_of_sign (0 < y))"
| "np_mul NInf (Fin y) = (if y = 0 then NaN else inf_of_sign (y < 0))"
| "np_mul PInf PInf = PInf"
| "np_mul NInf NInf = PInf"
| "np_mul PInf NInf = NInf"
| "np_mul NInf PInf = NInf"

text \<open>\<^verbatim>\<open>a / b\<close> on finite float64 operands: \<open>x / 0\<close> is an infinity, \<open>0 / 0\<close> is NaN.\<close>

definition np_div :: "real \<Rightarrow> real \<Rightarrow> npfloat" where
  "np_div x y =
     (if y \<noteq> 0 then Fin (x / y) else if x = 0 then NaN else inf_of_sign (0 < x))"

text \<open>\<^verbatim>\<open>np.log\<close>: \<open>log(0) = -inf\<close>, and NaN below zero.\<close>

fun np_log :: "npfloat \<Rightarrow> npfloat" where
  "np_log (Fin x) = (if 0 < x then Fin (ln x) else if x = 0 then NInf else NaN)"
| "np_log PInf = PInf"
| "np_log NInf = NaN"
| "np_log NaN = NaN"

text \<open>\<^verbatim>\<open>np.sqrt\<close> of a finite value: NaN below zero.\<close>

definition np_sqrt :: "real \<Rightarrow> npfloat" where
  "np_sqrt x = (if x < 0 then NaN else Fin (sqrt x))"

subsection \<open>Python's \<open>sum\<close> and \<open>max\<close>\<close>

text \<open>
  \<^verbatim>\<open>sum(xs)\<close> adds from the left, starting at 0. \<^verbatim>\<open>max(xs)\<close> keeps the first
  item and replaces it by each later item that compares greater; it raises ValueError
  on an empty sequence.
\<close>

definition py_sum :: "real list \<Rightarrow> real" where
  "py_sum xs = fold (\<lambda>x acc. acc + x) xs 0"

definition np_sum :: "npfloat list \<Rightarrow> npfloat" where
  "np_sum xs = fold (\<lambda>x acc. np_add acc x) xs (Fin 0)"

fun py_max :: "real list \<Rightarrow> py_error + real" where
  "py_max [] = Inl ValueError"
| "py_max (x # xs) = Inr (fold (\<lambda>y m. if m < y then y else m) xs x)"

subsection \<open>Arrays with two axes\<close>

text \<open>
  A numpy array of shape \<open>(n, k)\<close> is the list of its \<open>n\<close> rows, each of length \<open>k\<close>.
  \<^verbatim>\<open>a[:, j]\<close> raises IndexError when \<open>j\<close> is not a column; the notebook only takes
  a column of an array with at least one row. \<^verbatim>\<open>a[idx]\<close> gathers the rows at the
  indices \<open>idx\<close>, \<^verbatim>\<open>a[mask]\<close> the rows where the mask is true.
\<close>

definition column :: "real list list \<Rightarrow> nat \<Rightarrow> py_error + real list" where
  "column a j =
     (if list_all (\<lambda>r. j < length r) a then Inr (map (\<lambda>r. r ! j) a) else Inl IndexError)"

definition gather :: "'a list \<Rightarrow> nat list \<Rightarrow> 'a list" where
  "gather a idx = map (\<lambda>i. a ! i) idx"

definition select_mask :: "'a list \<Rightarrow> bool list \<Rightarrow> 'a list" where
  "select_mask a keep = map fst (filter snd (zip a keep))"

text \<open>
  \<^verbatim>\<open>np.argsort(xs)\<close> and \<^verbatim>\<open>np.lexsort((secondary, primary))\<close> return the indices
  that sort the keys; equal keys keep their order here (numpy's lexsort is stable, its
  default argsort is stable on the short arrays where it is an insertion sort).
  \<^verbatim>\<open>np.unique(a, axis=0)\<close> returns the distinct rows in lexicographic order.
\<close>

definition argsort :: "real list \<Rightarrow> nat list" where
  "argsort xs = sort_key (\<lambda>i. xs ! i) [0..<length xs]"

definition lexsort :: "real list \<Rightarrow> real list \<Rightarrow> nat list" where
  "lexsort secondary primary =
     sort_key (\<lambda>i. (primary ! i, secondary ! i)) [0..<length primary]"

definition np_unique_rows :: "'a::linorder list \<Rightarrow> 'a list" where
  "np_unique_rows a = sort (remdups a)"

text \<open>\<^verbatim>\<open>np.maximum.accumulate\<close>: the running maximum.\<close>

fun running_max :: "real \<Rightarrow> real list \<Rightarrow> real list" where
  "running_max m [] = []"
| "running_max m (x # xs) = max m x # running_max (max m x) xs"

fun maximum_accumulate :: "real list \<Rightarrow> real list" where
  "maximum_accumulate [] = []"
| "maximum_accumulate (x # xs) = x # running_max x xs"

subsection \<open>Function 4: \<open>get_diagram_lives\<close>\<close>

text \<open>
  \<^verbatim>\<open>
  def get_diagram_lives(diagram):
      return diagram[:,1]-diagram[:,0] if len(diagram)>0 else np.array([0])
  \<close>
\<close>

definition get_diagram_lives :: "real list list \<Rightarrow> py_error + real list" where
  "get_diagram_lives diagram =
     (if 0 < length diagram then
        (case column diagram 1 of Inl e \<Rightarrow> Inl e
         | Inr deaths \<Rightarrow>
            (case column diagram 0 of Inl e \<Rightarrow> Inl e
             | Inr births \<Rightarrow> Inr (map2 (\<lambda>d b. d - b) deaths births)))
      else Inr [0])"

subsection \<open>Function 5: \<open>get_diagram_entropy\<close>\<close>

text \<open>
  \<^verbatim>\<open>
  def get_diagram_entropy(lives):
      if max(abs(lives)) == 0:
          return 0.
      else:
          normalizedLives = lives/sum(lives)
          return sum(-normalizedLives*np.log(normalizedLives))
  \<close>
\<close>

definition get_diagram_entropy :: "real list \<Rightarrow> py_error + npfloat" where
  "get_diagram_entropy lives =
     (case py_max (map abs lives) of Inl e \<Rightarrow> Inl e
      | Inr m \<Rightarrow>
         if m = 0 then Inr (Fin 0)
         else
           (let normalizedLives = map (\<lambda>x. np_div x (py_sum lives)) lives
            in Inr (np_sum (map (\<lambda>p. np_mul (np_neg p) (np_log p)) normalizedLives))))"

subsection \<open>Function 6: \<open>get_area_under_betti_curve\<close>\<close>

text \<open>
  \<^verbatim>\<open>
  def get_area_under_betti_curve(diagram):
      result_l1, result_l2 = 0, 0
      if len(diagram) == 0:
          return [result_l1, result_l2]
      else:
          allPts = np.concatenate([diagram[:,0],diagram[:,1]])
          birthOrDeath = np.concatenate([np.zeros(len(diagram)),np.ones(len(diagram))])
          ptsSortIndex = np.argsort(allPts)
          ptsSorted, birthOrDeathSorted = allPts[ptsSortIndex], birthOrDeath[ptsSortIndex]
          bettiCurveHeight = 0
          for i in range(len(ptsSorted)-1):
              if birthOrDeathSorted[i] == 0:
                  bettiCurveHeight += 1
              elif birthOrDeathSorted[i] == 1:
                  bettiCurveHeight += -1
              result_l1 += bettiCurveHeight*(ptsSorted[i+1]-ptsSorted[i])
              result_l2 += (bettiCurveHeight**2)*(ptsSorted[i+1]-ptsSorted[i])
          return [result_l1, np.sqrt(result_l2)]
  \<close>
  The state of the loop is \<open>(bettiCurveHeight, result_l1, result_l2)\<close>.
\<close>

definition betti_step :: "real list \<Rightarrow> real list \<Rightarrow> nat \<Rightarrow> int \<times> real \<times> real \<Rightarrow> int \<times> real \<times> real"
  where
  "betti_step ptsSorted birthOrDeathSorted i st =
     (case st of (height, result_l1, result_l2) \<Rightarrow>
        (let height' =
               (if birthOrDeathSorted ! i = 0 then height + 1
                else if birthOrDeathSorted ! i = 1 then height - 1 else height);
             width = ptsSorted ! (i + 1) - ptsSorted ! i
         in (height', result_l1 + real_of_int height' * width,
             result_l2 + real_of_int (height'\<^sup>2) * width)))"

definition get_area_under_betti_curve :: "real list list \<Rightarrow> py_error + npfloat \<times> npfloat" where
  "get_area_under_betti_curve diagram =
     (if length diagram = 0 then Inr (Fin 0, Fin 0)
      else
        (case column diagram 0 of Inl e \<Rightarrow> Inl e
         | Inr births \<Rightarrow>
            (case column diagram 1 of Inl e \<Rightarrow> Inl e
             | Inr deaths \<Rightarrow>
                (let allPts = births @ deaths;
                     birthOrDeath =
                       replicate (length diagram) 0 @ replicate (length diagram) 1;
                     ptsSortIndex = argsort allPts;
                     ptsSorted = gather allPts ptsSortIndex;
                     birthOrDeathSorted = gather birthOrDeath ptsSortIndex
                 in (case fold (betti_step ptsSorted birthOrDeathSorted)
                            [0..<length ptsSorted - 1] (0, 0, 0) of
                       (height, result_l1, result_l2) \<Rightarrow>
                         Inr (Fin result_l1, np_sqrt result_l2))))))"

subsection \<open>Functions 7: \<open>get_area_under_landscape\<close>\<close>

text \<open>
  \<^verbatim>\<open>
  def getLandscapePoints(diagram):
      diagram = np.unique(diagram, axis = 0) #delete duplicate rows
      diagram = diagram[np.lexsort((diagram[:,1],diagram[:,0]))] #sort by col1 then col0
      #running max of col1 equals to col1 is the good rows
      return diagram[np.maximum.accumulate(diagram[:,1]) == diagram[:,1]]
  \<close>
\<close>

definition getLandscapePoints :: "real list list \<Rightarrow> py_error + real list list" where
  "getLandscapePoints diagram =
     (let unique = np_unique_rows diagram
      in (case column unique 1 of Inl e \<Rightarrow> Inl e
          | Inr col1 \<Rightarrow>
             (case column unique 0 of Inl e \<Rightarrow> Inl e
              | Inr col0 \<Rightarrow>
                 (let sorted_rows = gather unique (lexsort col1 col0)
                  in (case column sorted_rows 1 of Inl e \<Rightarrow> Inl e
                      | Inr deaths \<Rightarrow>
                          Inr (select_mask sorted_rows
                                 (map2 (\<lambda>m d. m = d) (maximum_accumulate deaths) deaths)))))))"

text \<open>
  \<^verbatim>\<open>
  def getLandscapeReturnPoints(diagram):
      diagram = getLandscapePoints(diagram)
      diagram = diagram[diagram[:,0].argsort()]
      returnPoints = [[diagram[0,0],0]] #birth of first point
      for i in range(len(diagram)):
          returnPoints.append([(diagram[i,1]+diagram[i,0])/2, (diagram[i,1]-diagram[i,0])/2])
          if i == len(diagram)-1:
              returnPoints.append([diagram[i,1],0])
          else:
              if diagram[i+1,0] > diagram[i,1]:
                  returnPoints.append([diagram[i,1],0])
                  returnPoints.append([diagram[i+1,0],0])
              else:
                  returnPoints.append([(diagram[i,1]+diagram[i+1,0])/2,
                                       (diagram[i,1]-diagram[i+1,0])/2])
      return np.unique(returnPoints, axis = 0)
  \<close>
  \<open>return_points_at diagram i\<close> is what round \<open>i\<close> of the loop appends. A return point
  is a pair. \<^verbatim>\<open>diagram[0,0]\<close> raises IndexError on an array with no row, and
  \<^verbatim>\<open>diagram[i,1]\<close> on rows shorter than two.
\<close>

definition return_points_at :: "real list list \<Rightarrow> nat \<Rightarrow> (real \<times> real) list" where
  "return_points_at diagram i =
     ((diagram ! i ! 1 + diagram ! i ! 0) / 2, (diagram ! i ! 1 - diagram ! i ! 0) / 2) #
     (if i = length diagram - 1 then [(diagram ! i ! 1, 0)]
      else if diagram ! i ! 1 < diagram ! (i + 1) ! 0
        then [(diagram ! i ! 1, 0), (diagram ! (i + 1) ! 0, 0)]
        else [((diagram ! i ! 1 + diagram ! (i + 1) ! 0) / 2,
               (diagram ! i ! 1 - diagram ! (i + 1) ! 0) / 2)])"

definition getLandscapeReturnPoints :: "real list list \<Rightarrow> py_error + (real \<times> real) list" where
  "getLandscapeReturnPoints diagram0 =
     (case getLandscapePoints diagram0 of Inl e \<Rightarrow> Inl e
      | Inr points \<Rightarrow>
         (case column points 0 of Inl e \<Rightarrow> Inl e
          | Inr births \<Rightarrow>
             (let diagram = gather points (argsort births)
              in if diagram = [] \<or> list_ex (\<lambda>r. length r < 2) diagram then Inl IndexError
                 else Inr (np_unique_rows
                        ((diagram ! 0 ! 0, 0) #
                         concat (map (return_points_at diagram) [0..<length diagram]))))))"

text \<open>
  \<^verbatim>\<open>
  def l2areaUnderLine(p1,p2):
      x1,y1 = p1
      x2,y2 = p2
      result_l1 = -((x1 - x2)*(y1 + y2))/2
      result_l2 = -((x1 - x2)*(y1**2 + y1*y2 + y2**2))/3
      return [result_l1, result_l2]

  def get_area_under_landscape(diagram):
      if len(diagram) == 0:
          return [0,0]
      else:
          returnPoints = getLandscapeReturnPoints(diagram)
          result_l1, result_l2 = 0, 0
          for i in range(len(returnPoints)-1):
              area_l1, area_l2 = l2areaUnderLine(returnPoints[i],returnPoints[i+1])
              result_l1 += area_l1
              result_l2 += area_l2
          return [result_l1, np.sqrt(result_l2)]
  \<close>
\<close>

definition l2areaUnderLine :: "real \<times> real \<Rightarrow> real \<times> real \<Rightarrow> real \<times> real" where
  "l2areaUnderLine p1 p2 =
     (case p1 of (x1, y1) \<Rightarrow> case p2 of (x2, y2) \<Rightarrow>
        (- ((x1 - x2) * (y1 + y2)) / 2,
         - ((x1 - x2) * (y1\<^sup>2 + y1 * y2 + y2\<^sup>2)) / 3))"

definition landscape_step :: "(real \<times> real) list \<Rightarrow> nat \<Rightarrow> real \<times> real \<Rightarrow> real \<times> real" where
  "landscape_step returnPoints i st =
     (case st of (result_l1, result_l2) \<Rightarrow>
        (case l2areaUnderLine (returnPoints ! i) (returnPoints ! (i + 1)) of
           (area_l1, area_l2) \<Rightarrow> (result_l1 + area_l1, result_l2 + area_l2)))"

definition get_area_under_landscape :: "real list list \<Rightarrow> py_error + npfloat \<times> npfloat" where
  "get_area_under_landscape diagram =
     (if length diagram = 0 then Inr (Fin 0, Fin 0)
      else
        (case getLandscapeReturnPoints diagram of Inl e \<Rightarrow> Inl e
         | Inr returnPoints \<Rightarrow>
            (case fold (landscape_step returnPoints) [0..<length returnPoints - 1] (0, 0) of
               (result_l1, result_l2) \<Rightarrow> Inr (Fin result_l1, np_sqrt result_l2))))"

subsection \<open>Function 8: \<open>get_diagram_features\<close>\<close>

text \<open>
  \<^verbatim>\<open>
  def get_diagram_features(diagram):
      diagram = diagram[~np.any(np.isinf(diagram),axis=1)]
      lives = get_diagram_lives(diagram)
      sumLives = sum(lives)/np.sqrt(2) #feature 0
      maxLife = max(lives)/np.sqrt(2) #feature 1
      diagramEntropy = get_diagram_entropy(lives) #feature 2
      areaBettiL1, areaBettiL2 = get_area_under_betti_curve(diagram) #features 3 and 4
      areaLandscapeL1, areaLandscapeL2 = get_area_under_landscape(diagram) #features 5 and 6
      result = [sumLives, maxLife, diagramEntropy, areaBettiL1, areaBettiL2,
                areaLandscapeL1, areaLandscapeL2]
      return result
  \<close>
\<close>

definition remove_inf_rows :: "entry list list \<Rightarrow> real list list" where
  "remove_inf_rows diagram =
     map (map the_num) (filter (\<lambda>r. \<not> list_ex np_isinf r) diagram)"

definition get_diagram_features :: "entry list list \<Rightarrow> py_error + npfloat list" where
  "get_diagram_features diagram0 =
     (let diagram = remove_inf_rows diagram0
      in (case get_diagram_lives diagram of Inl e \<Rightarrow> Inl e
          | Inr lives \<Rightarrow>
             (let sumLives = py_sum lives / sqrt 2
              in (case py_max lives of Inl e \<Rightarrow> Inl e
                  | Inr m \<Rightarrow>
                     (let maxLife = m / sqrt 2
                      in (case get_diagram_entropy lives of Inl e \<Rightarrow> Inl e
                          | Inr diagramEntropy \<Rightarrow>
                             (case get_area_under_betti_curve diagram of Inl e \<Rightarrow> Inl e
                              | Inr (areaBettiL1, areaBettiL2) \<Rightarrow>
                                 (case get_area_under_landscape diagram of Inl e \<Rightarrow> Inl e
                                  | Inr (areaLandscapeL1, areaLandscapeL2) \<Rightarrow>
                                      Inr [Fin sumLives, Fin maxLife, diagramEntropy,
                                           areaBettiL1, areaBettiL2,
                                           areaLandscapeL1, areaLandscapeL2]))))))))"


subsection \<open>Section 4 of the notebook: the window features\<close>

text \<open>
  \<^verbatim>\<open>
  window_features_mean = all_subwindow_features.rolling(10).mean()
  window_features_std = all_subwindow_features.rolling(10).std()
  window_features = pd.concat([window_features_mean, window_features_std], axis=1).dropna()
  \<close>
  with the number of subwindows per window, 10 in the notebook, as the parameter \<open>n\<close>.
  A cell of a data frame is a float64, where NaN is pandas' missing value: \<open>None\<close>.
  A frame is the list of its rows, the row at position \<open>i\<close> carrying the index label
  \<open>i\<close>. \<open>rolling(n)\<close> looks, at position \<open>i\<close> of a column, at the cells
  \<open>max(0, i-n+1) .. i\<close>; its result is NaN unless the window holds at least
  \<open>min_periods = n\<close> observations that are not NaN. \<open>mean\<close> is NaN on no observation;
  \<open>std\<close> has \<open>ddof = 1\<close> and is NaN on fewer than two observations.
\<close>

type_synonym cell = "real option"

definition rolling_obs :: "cell list \<Rightarrow> nat \<Rightarrow> nat \<Rightarrow> real list" where
  "rolling_obs xs n i = List.map_filter id (drop (i + 1 - n) (take (i + 1) xs))"

definition mean :: "real list \<Rightarrow> real" where
  "mean obs = sum_list obs / real (length obs)"

definition sample_std :: "real list \<Rightarrow> real" where
  "sample_std obs =
     sqrt (sum_list (map (\<lambda>x. (x - mean obs)\<^sup>2) obs) / real (length obs - 1))"

definition rolling_mean :: "cell list \<Rightarrow> nat \<Rightarrow> cell list" where
  "rolling_mean xs n =
     map (\<lambda>i. let obs = rolling_obs xs n i
              in if length obs < n \<or> length obs = 0 then None else Some (mean obs))
       [0..<length xs]"

definition rolling_std :: "cell list \<Rightarrow> nat \<Rightarrow> cell list" where
  "rolling_std xs n =
     map (\<lambda>i. let obs = rolling_obs xs n i
              in if length obs < n \<or> length obs \<le> 1 then None else Some (sample_std obs))
       [0..<length xs]"

definition frame_columns :: "cell list list \<Rightarrow> cell list list" where
  "frame_columns rows =
     (case rows of [] \<Rightarrow> []
      | r # _ \<Rightarrow> map (\<lambda>j. map (\<lambda>row. row ! j) rows) [0..<length r])"

definition frame_of_columns :: "nat \<Rightarrow> cell list list \<Rightarrow> cell list list" where
  "frame_of_columns n cols = map (\<lambda>i. map (\<lambda>c. c ! i) cols) [0..<n]"

definition frame_rolling :: "(cell list \<Rightarrow> nat \<Rightarrow> cell list) \<Rightarrow> cell list list \<Rightarrow> nat \<Rightarrow> cell list list"
  where
  "frame_rolling stat rows n =
     frame_of_columns (length rows) (map (\<lambda>c. stat c n) (frame_columns rows))"

definition concat_columns :: "cell list list \<Rightarrow> cell list list \<Rightarrow> cell list list" where
  "concat_columns a b = map2 (\<lambda>r r'. r @ r') a b"

definition dropna :: "(nat \<times> cell list) list \<Rightarrow> (nat \<times> cell list) list" where
  "dropna frame = filter (\<lambda>(i, r). list_all (\<lambda>c. c \<noteq> None) r) frame"

definition window_features :: "cell list list \<Rightarrow> nat \<Rightarrow> (nat \<times> cell list) list" where
  "window_features all_subwindow_features n =
     (let window_features_mean = frame_rolling rolling_mean all_subwindow_features n;
          window_features_std = frame_rolling rolling_std all_subwindow_features n
      in dropna (zip [0..<length all_subwindow_features]
                   (concat_columns window_features_mean window_features_std)))"

section \<open>The properties, in the specification's words\<close>

text \<open>
  An array of shape \<open>(n, k)\<close>: every row has \<open>k\<close> entries. A diagram of finite pairs is
  the array of shape \<open>(n, 2)\<close> the engine returns for them.
\<close>

definition has_shape :: "'a list list \<Rightarrow> nat \<Rightarrow> bool" where
  "has_shape a k = list_all (\<lambda>r. length r = k) a"

text \<open>Feature \<open>i\<close> of the vector \<open>get_diagram_features\<close> returns, when it returns one.\<close>

definition feature :: "nat \<Rightarrow> py_error + npfloat list \<Rightarrow> npfloat option" where
  "feature i result = (case result of Inl e \<Rightarrow> None | Inr v \<Rightarrow> Some (v ! i))"

definition finite_pair_diagram :: "(real \<times> real) list \<Rightarrow> entry list list" where
  "finite_pair_diagram pairs = map (\<lambda>(b, d). [Num b, Num d]) pairs"

text \<open>
  The values of column \<open>j\<close> over the window of \<open>n\<close> rows that ends at row \<open>i\<close>, and
  whether that window is complete: no cell of these rows is missing.
\<close>

definition window_values :: "cell list list \<Rightarrow> nat \<Rightarrow> nat \<Rightarrow> nat \<Rightarrow> real list" where
  "window_values rows n i j = map (\<lambda>t. the (rows ! t ! j)) [i + 1 - n..<i + 1]"

definition window_complete :: "cell list list \<Rightarrow> nat \<Rightarrow> nat \<Rightarrow> bool" where
  "window_complete rows n i =
     list_all (\<lambda>t. list_all (\<lambda>c. c \<noteq> None) (rows ! t)) [i + 1 - n..<i + 1]"

text \<open>Column \<open>j\<close> has a complete window of \<open>n\<close> rows ending at row \<open>i\<close>.\<close>

definition column_complete :: "cell list list \<Rightarrow> nat \<Rightarrow> nat \<Rightarrow> nat \<Rightarrow> bool" where
  "column_complete rows n i j =
     (n \<le> i + 1 \<and> list_all (\<lambda>t. rows ! t ! j \<noteq> None) [i + 1 - n..<i + 1])"

definition window_mean :: "cell list list \<Rightarrow> nat \<Rightarrow> nat \<Rightarrow> nat \<Rightarrow> real" where
  "window_mean rows n i j = sum_list (window_values rows n i j) / real n"

definition window_std :: "cell list list \<Rightarrow> nat \<Rightarrow> nat \<Rightarrow> nat \<Rightarrow> real" where
  "window_std rows n i j =
     sqrt (sum_list (map (\<lambda>x. (x - window_mean rows n i j)\<^sup>2) (window_values rows n i j))
           / real (n - 1))"

definition window_row :: "cell list list \<Rightarrow> nat \<Rightarrow> nat \<Rightarrow> nat \<Rightarrow> cell list" where
  "window_row rows k n i =
     map (\<lambda>j. Some (window_mean rows n i j)) [0..<k] @
     map (\<lambda>j. Some (window_std rows n i j)) [0..<k]"

section \<open>The segmenter\<close>

lemma py_slice_window:
  assumes "0 \<le> i" "0 \<le> l" "i + l \<le> int (length y)"
  shows "py_slice y i (i + l) = take (nat l) (drop (nat i) y)"
proof -
  have a: "py_slice_bound (length y) i = nat i"
    using assms by (simp add: py_slice_bound_def)
  have b: "py_slice_bound (length y) (i + l) = nat i + nat l"
    using assms by (simp add: py_slice_bound_def nat_add_distrib)
  show ?thesis
    by (simp add: py_slice_def a b Let_def take_drop add.commute)
qed

lemma py_range_len_pos:
  assumes "1 \<le> l" "l \<le> n" "1 \<le> s"
  shows "py_range_len (n - l + 1) s = nat ((n - l) div s) + 1"
proof -
  have "0 \<le> (n - l) div s"
    using assms by (simp add: pos_imp_zdiv_nonneg_iff)
  then show ?thesis
    using assms by (simp add: py_range_len_def nat_add_distrib)
qed

lemma window_offset_bound:
  assumes "1 \<le> l" "l \<le> n" "1 \<le> (s::int)" "int k \<le> (n - l) div s"
  shows "int k * s + l \<le> n"
proof -
  have "int k * s \<le> ((n - l) div s) * s"
    using assms by (simp add: mult_right_mono)
  also have "\<dots> \<le> n - l"
  proof -
    have "((n - l) div s) * s = (n - l) - (n - l) mod s"
      by (simp add: minus_mod_eq_div_mult)
    moreover have "0 \<le> (n - l) mod s" using assms by simp
    ultimately show ?thesis by linarith
  qed
  finally show ?thesis by simp
qed

lemma sliding_windows_valid:
  assumes "1 \<le> l" "l \<le> int (length y)" "1 \<le> s"
  shows "sliding_windows y l s =
    Inr (map (\<lambda>k. take (nat l) (drop (k * nat s) y))
          [0..<nat ((int (length y) - l) div s) + 1])"
proof -
  let ?n = "int (length y)"
  let ?c = "nat ((?n - l) div s) + 1"
  have nonneg: "0 \<le> (?n - l) div s"
    using assms by (simp add: pos_imp_zdiv_nonneg_iff)
  have len: "py_range_len (?n - l + 1) s = ?c"
    using assms by (rule py_range_len_pos)
  have win: "py_slice y (int k * s) (int k * s + l) = take (nat l) (drop (k * nat s) y)"
    if "k < ?c" for k
  proof -
    have "int k \<le> (?n - l) div s" using that nonneg by linarith
    then have "int k * s + l \<le> ?n"
      using assms by (intro window_offset_bound) auto
    moreover have "0 \<le> int k * s" using assms by simp
    moreover have "nat (int k * s) = k * nat s"
      using assms by (simp add: nat_mult_distrib)
    ultimately show ?thesis
      using assms py_slice_window [of "int k * s" l y] by simp
  qed
  have "s \<noteq> 0" using assms by simp
  then have "sliding_windows y l s =
      Inr (map (\<lambda>k. py_slice y (int k * s) (int k * s + l)) [0..<?c])"
    by (simp add: sliding_windows_def py_range_def len comp_def del: upt_Suc)
  also have "map (\<lambda>k. py_slice y (int k * s) (int k * s + l)) [0..<?c] =
      map (\<lambda>k. take (nat l) (drop (k * nat s) y)) [0..<?c]"
    using win by (intro map_cong) (auto simp del: upt_Suc)
  finally show ?thesis .
qed

text \<open>
  Claim C6. For every sequence, every length with \<open>1 \<le> length \<le> len(sequence)\<close> and
  every shift at least 1, \<open>sliding_windows\<close> returns exactly
  \<open>floor((len(sequence) - length) / shift) + 1\<close> subwindows; the k-th one starts at
  offset \<open>k * shift\<close> and holds exactly \<open>length\<close> consecutive samples.
\<close>

theorem sliding_windows_count_and_content:
  assumes "1 \<le> l" "l \<le> int (length y)" "1 \<le> s"
  shows "\<exists>ws. sliding_windows y l s = Inr ws
           \<and> length ws = nat ((int (length y) - l) div s) + 1
           \<and> (\<forall>k < length ws. ws ! k = take (nat l) (drop (k * nat s) y)
                                  \<and> length (ws ! k) = nat l)"
proof -
  let ?c = "nat ((int (length y) - l) div s) + 1"
  let ?ws = "map (\<lambda>k. take (nat l) (drop (k * nat s) y)) [0..<?c]"
  have nonneg: "0 \<le> (int (length y) - l) div s"
    using assms by (simp add: pos_imp_zdiv_nonneg_iff)
  have full: "length (take (nat l) (drop (k * nat s) y)) = nat l" if "k < ?c" for k
  proof -
    have "int k \<le> (int (length y) - l) div s" using that nonneg by linarith
    then have "int k * s + l \<le> int (length y)"
      using assms by (intro window_offset_bound) auto
    moreover have "int (k * nat s) = int k * s" using assms by simp
    ultimately have "k * nat s + nat l \<le> length y" using assms by linarith
    then show ?thesis by simp
  qed
  have "sliding_windows y l s = Inr ?ws"
    using assms by (rule sliding_windows_valid)
  moreover have "length ?ws = ?c" by simp
  moreover have "\<forall>k < length ?ws. ?ws ! k = take (nat l) (drop (k * nat s) y)
      \<and> length (?ws ! k) = nat l"
    using full by (simp del: upt_Suc)
  ultimately show ?thesis by blast
qed

theorem sliding_windows_count_and_content_witness:
  "\<exists>ws. sliding_windows [1, 2, 3, 4, 5 :: int] 2 2 = Inr ws \<and> length ws = 2
     \<and> ws ! 1 = [3, 4] \<and> length (ws ! 1) = 2"
proof -
  obtain ws where ws: "sliding_windows [1, 2, 3, 4, 5 :: int] 2 2 = Inr ws"
    "length ws = nat ((int (length [1, 2, 3, 4, 5 :: int]) - 2) div 2) + 1"
    "\<forall>k < length ws. ws ! k = take (nat 2) (drop (k * nat 2) [1, 2, 3, 4, 5 :: int])
        \<and> length (ws ! k) = nat 2"
    using sliding_windows_count_and_content [of 2 "[1, 2, 3, 4, 5 :: int]" 2] by auto
  have l: "length ws = 2" using ws(2) by simp
  then have "ws ! 1 = take (nat 2) (drop (1 * nat 2) [1, 2, 3, 4, 5 :: int])
      \<and> length (ws ! 1) = nat 2"
    using ws(3) by simp
  then have "ws ! 1 = [3, 4] \<and> length (ws ! 1) = 2" by simp
  then show ?thesis using ws(1) l by blast
qed

text \<open>
  Claim C9 as stated fails: the notebook validates nothing. A subwindow length above the
  length of the sequence gives an empty result and a zero length gives empty subwindows,
  both returned normally.
\<close>

theorem sliding_windows_no_validation_counterexample:
  "sliding_windows [1, 2, 3 :: int] 5 1 = Inr []
   \<and> sliding_windows [1, 2, 3 :: int] 0 2 = Inr [[], []]"
  by (simp add: sliding_windows_def py_range_def py_range_len_def py_slice_def
      py_slice_bound_def upt_rec)

text \<open>
  Claim C9, amended. There is no InvalidConfiguration error: for every non-zero shift
  \<open>sliding_windows\<close> returns a (possibly empty) list of subwindows, the empty list when
  the subwindow length exceeds the length of the sequence and the shift is at least 1;
  a zero shift fails with the ValueError of Python's \<open>range\<close>.
\<close>

theorem sliding_windows_invalid_configuration:
  "(s \<noteq> 0 \<longrightarrow> (\<exists>ws. sliding_windows y l s = Inr ws))
   \<and> (1 \<le> s \<and> int (length y) < l \<longrightarrow> sliding_windows y l s = Inr [])
   \<and> sliding_windows y l 0 = Inl ValueError"
  by (simp add: sliding_windows_def py_range_def py_range_len_def)

theorem sliding_windows_invalid_configuration_witness:
  "(\<exists>ws. sliding_windows [1, 2, 3 :: int] 4 (- 1) = Inr ws)
   \<and> sliding_windows [1, 2, 3 :: int] 4 1 = Inr []
   \<and> sliding_windows [1, 2, 3 :: int] 4 0 = Inl ValueError"
  using sliding_windows_invalid_configuration [of "- 1" "[1, 2, 3 :: int]" 4]
    sliding_windows_invalid_configuration [of 1 "[1, 2, 3 :: int]" 4]
  by simp


section \<open>Python's \<open>sum\<close> and \<open>max\<close>, and NaN\<close>

lemma py_sum_sum_list: "py_sum xs = sum_list xs"
proof -
  have "fold (\<lambda>x acc. acc + x) xs a = a + sum_list xs" for a :: real
    by (induction xs arbitrary: a) auto
  then show ?thesis by (simp add: py_sum_def)
qed

lemma fold_keep_greater: "fold (\<lambda>y m. if m < y then y else m) xs (x::real) = Max (set (x # xs))"
proof -
  have "(\<lambda>y m. if m < y then y else m) = (max :: real \<Rightarrow> real \<Rightarrow> real)"
    by (intro ext) (simp add: max_def)
  then show ?thesis using Max.set_eq_fold [of x xs] by simp
qed

lemma py_max_Max: "xs \<noteq> [] \<Longrightarrow> py_max xs = Inr (Max (set xs))"
  by (cases xs) (simp_all add: fold_keep_greater)

lemma np_add_NaN_right: "np_add a NaN = NaN"
  by (cases a) simp_all

lemma fold_np_add_NaN: "fold (\<lambda>x acc. np_add acc x) xs NaN = NaN"
  by (induction xs) simp_all

lemma np_sum_NaN: "NaN \<in> set xs \<Longrightarrow> fold (\<lambda>x acc. np_add acc x) xs a = NaN"
  by (induction xs arbitrary: a) (auto simp: np_add_NaN_right fold_np_add_NaN)

lemma zero_life_term: "np_mul (np_neg (np_div 0 s)) (np_log (np_div 0 s)) = NaN"
  by (simp add: np_div_def)

lemma entropy_nan:
  assumes "0 \<in> set lives" "x \<in> set lives" "x \<noteq> 0"
  shows "get_diagram_entropy lives = Inr NaN"
proof -
  have ne: "map abs lives \<noteq> []" using assms by auto
  have "\<bar>x\<bar> \<le> Max (set (map abs lives))" using assms by (intro Max_ge) auto
  moreover have "0 < \<bar>x\<bar>" using assms by simp
  ultimately have m: "Max (set (map abs lives)) \<noteq> 0" by linarith
  have "NaN \<in> set (map (\<lambda>p. np_mul (np_neg p) (np_log p)) (map (\<lambda>x. np_div x (py_sum lives)) lives))"
    using assms(1) zero_life_term [of "py_sum lives"] by (force simp: image_iff)
  then have "np_sum (map (\<lambda>p. np_mul (np_neg p) (np_log p)) (map (\<lambda>x. np_div x (py_sum lives)) lives)) = NaN"
    unfolding np_sum_def by (rule np_sum_NaN)
  then show ?thesis
    using m by (simp add: get_diagram_entropy_def py_max_Max [OF ne] Let_def)
qed

section \<open>Shapes: where an IndexError can and cannot arise\<close>

lemma column_ok: "has_shape a k \<Longrightarrow> j < k \<Longrightarrow> column a j = Inr (map (\<lambda>r. r ! j) a)"
  by (auto simp: column_def has_shape_def list_all_iff)

lemma column_fail: "a \<noteq> [] \<Longrightarrow> has_shape a k \<Longrightarrow> k \<le> j \<Longrightarrow> column a j = Inl IndexError"
  by (cases a) (auto simp: column_def has_shape_def)

lemma has_shape_subset: "has_shape a k \<Longrightarrow> set b \<subseteq> set a \<Longrightarrow> has_shape b k"
  by (auto simp: has_shape_def list_all_iff)

lemma set_np_unique_rows: "set (np_unique_rows a) = set a"
  by (simp add: np_unique_rows_def)

lemma np_unique_rows_Nil_iff: "np_unique_rows a = [] \<longleftrightarrow> a = []"
  using set_np_unique_rows [of a] by (metis set_empty)

lemma set_lexsort: "set (lexsort s p) = {0..<length p}"
  by (simp add: lexsort_def)

lemma length_lexsort: "length (lexsort s p) = length p"
  by (simp add: lexsort_def)

lemma set_argsort: "set (argsort xs) = {0..<length xs}"
  by (simp add: argsort_def)

lemma length_argsort: "length (argsort xs) = length xs"
  by (simp add: argsort_def)

lemma set_gather: "set idx \<subseteq> {0..<length a} \<Longrightarrow> set (gather a idx) \<subseteq> set a"
  by (auto simp: gather_def)

lemma length_gather: "length (gather a idx) = length idx"
  by (simp add: gather_def)

lemma set_select_mask: "set (select_mask a keep) \<subseteq> set a"
  by (auto simp: select_mask_def dest: set_zip_leftD)

lemma select_mask_first: "select_mask (r # rs) (True # ks) = r # select_mask rs ks"
  by (simp add: select_mask_def)

lemma select_mask_running_max_nonempty:
  "select_mask (r # rs) (map2 (\<lambda>m d. m = d) (maximum_accumulate (map f (r # rs))) (map f (r # rs))) \<noteq> []"
  by (simp add: select_mask_first)

lemma getLandscapePoints_ok:
  assumes "d \<noteq> []" "has_shape d k" "2 \<le> k"
  shows "\<exists>pts. getLandscapePoints d = Inr pts \<and> pts \<noteq> [] \<and> has_shape pts k"
proof -
  define u where "u = np_unique_rows d"
  have su: "has_shape u k"
    using assms(2) unfolding u_def by (rule has_shape_subset) (simp add: set_np_unique_rows)
  have une: "u \<noteq> []" using assms(1) by (simp add: u_def np_unique_rows_Nil_iff)
  define c1 where "c1 = map (\<lambda>r. r ! 1) u"
  define c0 where "c0 = map (\<lambda>r. r ! 0) u"
  have c1: "column u 1 = Inr c1" unfolding c1_def using su by (rule column_ok) (use assms(3) in simp)
  have c0: "column u 0 = Inr c0" unfolding c0_def using su by (rule column_ok) (use assms(3) in simp)
  define s where "s = gather u (lexsort c1 c0)"
  have "length c0 = length u" by (simp add: c0_def)
  then have "set s \<subseteq> set u" unfolding s_def by (intro set_gather) (simp add: set_lexsort)
  with su have ss: "has_shape s k" by (rule has_shape_subset)
  have "length s = length u" by (simp add: s_def length_gather length_lexsort c0_def)
  then obtain r rs where s: "s = r # rs" using une by (cases s) auto
  have dd: "column s 1 = Inr (map (\<lambda>r. r ! 1) s)"
    using ss by (rule column_ok) (use assms(3) in simp)
  define pts where
    "pts = select_mask s (map2 (\<lambda>m d. m = d) (maximum_accumulate (map (\<lambda>r. r ! 1) s)) (map (\<lambda>r. r ! 1) s))"
  have 1: "getLandscapePoints d = Inr pts"
    by (simp only: getLandscapePoints_def Let_def u_def [symmetric] c1 c0 s_def [symmetric]
        dd sum.case pts_def)
  have 2: "pts \<noteq> []" unfolding pts_def s by (rule select_mask_running_max_nonempty)
  have 3: "has_shape pts k" unfolding pts_def by (rule has_shape_subset [OF ss set_select_mask])
  from 1 2 3 show ?thesis by (intro exI [of _ pts] conjI)
qed

lemma getLandscapeReturnPoints_ok:
  assumes "d \<noteq> []" "has_shape d k" "2 \<le> k"
  shows "\<exists>rp. getLandscapeReturnPoints d = Inr rp"
proof -
  obtain pts where p: "getLandscapePoints d = Inr pts" "pts \<noteq> []" "has_shape pts k"
    using getLandscapePoints_ok [OF assms] by (elim exE conjE)
  define b where "b = map (\<lambda>r. r ! 0) pts"
  have c: "column pts 0 = Inr b"
    unfolding b_def using p(3) by (rule column_ok) (use assms(3) in simp)
  define g where "g = gather pts (argsort b)"
  have "length g = length pts" by (simp add: g_def b_def length_gather length_argsort)
  then have gne: "g \<noteq> []" using p(2) by auto
  have "set g \<subseteq> set pts" unfolding g_def by (rule set_gather) (simp add: set_argsort b_def)
  with p(3) have "has_shape g k" by (rule has_shape_subset)
  then have "\<not> list_ex (\<lambda>r. length r < 2) g"
    using assms(3) by (auto simp: has_shape_def list_all_iff list_ex_iff)
  then have "\<not> (g = [] \<or> list_ex (\<lambda>r. length r < 2) g)" using gne by simp
  then show ?thesis
    by (simp only: getLandscapeReturnPoints_def p(1) c Let_def sum.case g_def [symmetric]
        if_False) (rule exI, rule refl)
qed

lemma get_area_under_landscape_ok:
  assumes "has_shape d k" "2 \<le> k"
  shows "\<exists>a b. get_area_under_landscape d = Inr (a, b)"
proof (cases "d = []")
  case True
  then show ?thesis by (simp add: get_area_under_landscape_def)
next
  case False
  then obtain rp where rp: "getLandscapeReturnPoints d = Inr rp"
    using getLandscapeReturnPoints_ok assms by blast
  obtain l1 l2 where f: "fold (landscape_step rp) [0..<length rp - 1] (0, 0) = (l1, l2)"
    by (cases "fold (landscape_step rp) [0..<length rp - 1] (0, 0)") auto
  have "length d \<noteq> 0" using False by simp
  then have "get_area_under_landscape d = Inr (Fin l1, np_sqrt l2)"
    by (simp only: get_area_under_landscape_def rp sum.case f prod.case if_False)
  then show ?thesis by blast
qed

lemma get_area_under_betti_curve_ok:
  assumes "has_shape d k" "2 \<le> k"
  shows "\<exists>a b. get_area_under_betti_curve d = Inr (a, b)"
proof (cases "d = []")
  case True
  then show ?thesis by (simp add: get_area_under_betti_curve_def)
next
  case False
  have c0: "column d 0 = Inr (map (\<lambda>r. r ! 0) d)"
    using assms(1) by (rule column_ok) (use assms(2) in simp)
  have c1: "column d 1 = Inr (map (\<lambda>r. r ! 1) d)"
    using assms(1) by (rule column_ok) (use assms(2) in simp)
  define allPts where "allPts = map (\<lambda>r. r ! 0) d @ map (\<lambda>r. r ! 1) d"
  define ps where "ps = gather allPts (argsort allPts)"
  define bs where
    "bs = gather (replicate (length d) (0::real) @ replicate (length d) 1) (argsort allPts)"
  obtain h l1 l2 where f: "fold (betti_step ps bs) [0..<length ps - 1] (0, 0, 0) = (h, l1, l2)"
    by (cases "fold (betti_step ps bs) [0..<length ps - 1] (0, 0, 0)") auto
  have "length d \<noteq> 0" using False by simp
  then have "get_area_under_betti_curve d = Inr (Fin l1, np_sqrt l2)"
    by (simp only: get_area_under_betti_curve_def c0 c1 sum.case Let_def
        allPts_def [symmetric] ps_def [symmetric] bs_def [symmetric] f prod.case if_False)
  then show ?thesis by blast
qed

lemma has_shape_remove_inf_rows: "has_shape d0 k \<Longrightarrow> has_shape (remove_inf_rows d0) k"
  by (auto simp: has_shape_def remove_inf_rows_def list_all_iff)

lemma get_diagram_lives_shape:
  assumes "d \<noteq> []" "has_shape d k" "2 \<le> k"
  shows "get_diagram_lives d = Inr (map (\<lambda>r. r ! 1 - r ! 0) d)"
proof -
  have c0: "column d 0 = Inr (map (\<lambda>r. r ! 0) d)"
    using assms(2) by (rule column_ok) (use assms(3) in simp)
  have c1: "column d 1 = Inr (map (\<lambda>r. r ! 1) d)"
    using assms(2) by (rule column_ok) (use assms(3) in simp)
  have "0 < length d" using assms(1) by simp
  then have "get_diagram_lives d =
      Inr (map2 (\<lambda>d b. d - b) (map (\<lambda>r. r ! 1) d) (map (\<lambda>r. r ! 0) d))"
    by (simp only: get_diagram_lives_def c0 c1 sum.case if_True)
  also have "map2 (\<lambda>d b. d - b) (map (\<lambda>r. r ! 1) d) (map (\<lambda>r. r ! 0) d) =
      map (\<lambda>r. r ! 1 - r ! 0) d"
    by (induction d) simp_all
  finally show ?thesis .
qed

lemma get_diagram_lives_ok:
  assumes "has_shape d k" "2 \<le> k"
  shows "\<exists>lives. get_diagram_lives d = Inr lives \<and> lives \<noteq> []"
proof (cases "d = []")
  case True
  then show ?thesis by (simp add: get_diagram_lives_def)
next
  case False
  then show ?thesis using get_diagram_lives_shape [OF False assms] by simp
qed

lemma get_diagram_entropy_ok:
  assumes "lives \<noteq> []"
  shows "\<exists>ent. get_diagram_entropy lives = Inr ent"
proof -
  have "map abs lives \<noteq> []" using assms by simp
  then have "py_max (map abs lives) = Inr (Max (set (map abs lives)))" by (rule py_max_Max)
  then show ?thesis by (simp add: get_diagram_entropy_def Let_def)
qed

lemma get_diagram_features_shape:
  assumes "has_shape d0 k" "2 \<le> k"
  shows "\<exists>lives ent b1 b2 l1 l2.
     get_diagram_lives (remove_inf_rows d0) = Inr lives \<and> lives \<noteq> []
     \<and> get_diagram_entropy lives = Inr ent
     \<and> get_area_under_betti_curve (remove_inf_rows d0) = Inr (b1, b2)
     \<and> get_area_under_landscape (remove_inf_rows d0) = Inr (l1, l2)
     \<and> get_diagram_features d0 =
         Inr [Fin (sum_list lives / sqrt 2), Fin (Max (set lives) / sqrt 2), ent, b1, b2, l1, l2]"
proof -
  define d where "d = remove_inf_rows d0"
  have sh: "has_shape d k" unfolding d_def using assms(1) by (rule has_shape_remove_inf_rows)
  obtain lives where lives: "get_diagram_lives d = Inr lives" "lives \<noteq> []"
    using get_diagram_lives_ok [OF sh assms(2)] by (elim exE conjE)
  obtain ent where ent: "get_diagram_entropy lives = Inr ent"
    using get_diagram_entropy_ok [OF lives(2)] by (elim exE)
  obtain b1 b2 where betti: "get_area_under_betti_curve d = Inr (b1, b2)"
    using get_area_under_betti_curve_ok [OF sh assms(2)] by (elim exE)
  obtain l1 l2 where land: "get_area_under_landscape d = Inr (l1, l2)"
    using get_area_under_landscape_ok [OF sh assms(2)] by (elim exE)
  have mx: "py_max lives = Inr (Max (set lives))" using lives(2) by (rule py_max_Max)
  have "get_diagram_features d0 =
      Inr [Fin (sum_list lives / sqrt 2), Fin (Max (set lives) / sqrt 2), ent, b1, b2, l1, l2]"
    by (simp only: get_diagram_features_def Let_def d_def [symmetric] lives(1) sum.case mx ent
        betti land prod.case py_sum_sum_list)
  then show ?thesis
    using lives ent betti land unfolding d_def by (intro exI conjI)
qed

lemma get_diagram_features_index_error:
  assumes "has_shape d0 k" "k < 2" "remove_inf_rows d0 \<noteq> []"
  shows "get_diagram_features d0 = Inl IndexError"
proof -
  define d where "d = remove_inf_rows d0"
  have sh: "has_shape d k" unfolding d_def using assms(1) by (rule has_shape_remove_inf_rows)
  have ne: "d \<noteq> []" using assms(3) by (simp add: d_def)
  have "column d 1 = Inl IndexError" using ne sh by (rule column_fail) (use assms(2) in simp)
  moreover have "0 < length d" using ne by simp
  ultimately have "get_diagram_lives d = Inl IndexError"
    by (simp only: get_diagram_lives_def sum.case if_True)
  then show ?thesis
    by (simp only: get_diagram_features_def Let_def d_def [symmetric] sum.case)
qed

section \<open>The feature extractor\<close>

text \<open>
  Claim C1. For the empty diagram, and for any diagram that is empty once the rows with
  an infinite birth or death are discarded, \<open>get_diagram_features\<close> returns normally
  with seven zeros: the lives are the sentinel \<open>[0]\<close>, and the Betti-curve and landscape
  areas are \<open>[0, 0]\<close> each.
\<close>

theorem extract_empty_diagram:
  assumes "list_all (list_ex np_isinf) diagram"
  shows "get_diagram_lives (remove_inf_rows diagram) = Inr [0]
    \<and> get_area_under_betti_curve (remove_inf_rows diagram) = Inr (Fin 0, Fin 0)
    \<and> get_area_under_landscape (remove_inf_rows diagram) = Inr (Fin 0, Fin 0)
    \<and> get_diagram_features diagram = Inr [Fin 0, Fin 0, Fin 0, Fin 0, Fin 0, Fin 0, Fin 0]"
proof -
  have "filter (\<lambda>r. \<not> list_ex np_isinf r) diagram = []"
    using assms by (simp add: list_all_iff filter_empty_conv)
  then have e: "remove_inf_rows diagram = []" by (simp add: remove_inf_rows_def)
  show ?thesis
    by (simp add: get_diagram_features_def e get_diagram_lives_def get_diagram_entropy_def
        get_area_under_betti_curve_def get_area_under_landscape_def py_sum_def)
qed

theorem extract_empty_diagram_witness:
  "get_diagram_features [] = Inr [Fin 0, Fin 0, Fin 0, Fin 0, Fin 0, Fin 0, Fin 0]
   \<and> get_diagram_features [[Num 0, PosInf], [NegInf, Num 3]] =
       Inr [Fin 0, Fin 0, Fin 0, Fin 0, Fin 0, Fin 0, Fin 0]"
  using extract_empty_diagram [of "[]"]
    extract_empty_diagram [of "[[Num 0, PosInf], [NegInf, Num 3]]"]
  by simp

text \<open>
  Claim C2 does not hold of the code. Whenever the lives hold a zero next to a non-zero
  value, the entropy is NaN: the normalised zero life is \<open>0\<close> (or \<open>0 / 0\<close>), its logarithm
  is \<open>-inf\<close>, the product \<open>-0 * -inf\<close> is NaN, and the sum keeps it.
\<close>

theorem entropy_zero_life_is_nan:
  assumes "0 \<in> set lives" "x \<in> set lives" "x \<noteq> 0"
  shows "get_diagram_entropy lives = Inr NaN"
  using assms by (rule entropy_nan)

theorem entropy_zero_life_is_nan_witness:
  "get_diagram_lives (remove_inf_rows [[Num 0, Num 0], [Num 0, Num 1]]) = Inr [0, 1]
   \<and> get_diagram_entropy [0, 1] = Inr NaN"
  using entropy_zero_life_is_nan [of "[0, 1]" 1]
  by (simp add: get_diagram_lives_def remove_inf_rows_def column_def)

lemmas feature_defs = get_diagram_features_def remove_inf_rows_def get_diagram_lives_def
  get_diagram_entropy_def get_area_under_betti_curve_def get_area_under_landscape_def
  getLandscapeReturnPoints_def getLandscapePoints_def column_def gather_def select_mask_def
  argsort_def lexsort_def np_unique_rows_def return_points_at_def l2areaUnderLine_def
  landscape_step_def betti_step_def py_sum_def np_sum_def np_div_def np_sqrt_def
  inf_of_sign_def

lemma extract_zero_life_example:
  "get_diagram_features [[Num 0, Num 0], [Num 0, Num 1]] =
     Inr [Fin (1 / sqrt 2), Fin (1 / sqrt 2), NaN, Fin 1, Fin 1, Fin (1 / 4), Fin (sqrt (1 / 12))]"
  by (simp add: feature_defs Let_def upt_rec less_eq_prod_def power2_eq_square)

text \<open>
  Claim C8 as stated fails: the lives are the signed differences \<open>death - birth\<close>. For the
  single pair born at 1 that dies at 0, the total life and the maximal life are
  \<open>-1 / sqrt 2\<close>.
\<close>

theorem lives_not_absolute_counterexample:
  "get_diagram_features [[Num 1, Num 0]] =
     Inr [Fin (- (1 / sqrt 2)), Fin (- (1 / sqrt 2)), Fin 0, Fin (- 1), Fin 1,
          Fin (- (1 / 4)), Fin (sqrt (1 / 12))]
   \<and> - (1 / sqrt 2) < (0::real)"
  by (simp add: feature_defs Let_def upt_rec less_eq_prod_def power2_eq_square)

text \<open>
  Claim C8, amended. For every non-empty diagram of finite pairs, also one with
  \<open>birth > death\<close>, the life-based features come from the signed lives
  \<open>death - birth\<close>, with no absolute value: the total life is their sum over \<open>sqrt 2\<close> and
  the maximal life their maximum over \<open>sqrt 2\<close>. Both are negative when every pair has
  \<open>birth > death\<close>.
\<close>

theorem lives_are_signed:
  assumes "pairs \<noteq> []"
  shows "feature 0 (get_diagram_features (finite_pair_diagram pairs)) =
           Some (Fin (sum_list (map (\<lambda>(b, d). d - b) pairs) / sqrt 2))
    \<and> feature 1 (get_diagram_features (finite_pair_diagram pairs)) =
           Some (Fin (Max (set (map (\<lambda>(b, d). d - b) pairs)) / sqrt 2))
    \<and> (list_all (\<lambda>(b, d). d < b) pairs \<longrightarrow>
           sum_list (map (\<lambda>(b, d). d - b) pairs) / sqrt 2 < 0
         \<and> Max (set (map (\<lambda>(b, d). d - b) pairs)) / sqrt 2 < 0)"
proof -
  define d0 where "d0 = finite_pair_diagram pairs"
  define lives where "lives = map (\<lambda>(b, d). d - b) pairs"
  have sh: "has_shape d0 2"
    by (auto simp: d0_def finite_pair_diagram_def has_shape_def list_all_iff)
  have rows: "remove_inf_rows d0 = map (\<lambda>(b, d). [b, d]) pairs"
    unfolding d0_def finite_pair_diagram_def remove_inf_rows_def
    by (induction pairs) (auto simp: case_prod_beta)
  have ne: "remove_inf_rows d0 \<noteq> []" using assms by (simp add: rows)
  have "has_shape (remove_inf_rows d0) 2" using sh by (rule has_shape_remove_inf_rows)
  with ne have "get_diagram_lives (remove_inf_rows d0) =
      Inr (map (\<lambda>r. r ! 1 - r ! 0) (remove_inf_rows d0))"
    by (rule get_diagram_lives_shape) simp
  also have "map (\<lambda>r. r ! 1 - r ! 0) (remove_inf_rows d0) = lives"
    by (simp add: rows lives_def case_prod_beta)
  finally have l: "get_diagram_lives (remove_inf_rows d0) = Inr lives" .
  obtain lives' ent b1 b2 l1 l2 where
    "get_diagram_lives (remove_inf_rows d0) = Inr lives'"
    "get_diagram_features d0 =
       Inr [Fin (sum_list lives' / sqrt 2), Fin (Max (set lives') / sqrt 2), ent, b1, b2, l1, l2]"
    using get_diagram_features_shape [OF sh order_refl] by (elim exE conjE)
  then have f: "get_diagram_features d0 =
       Inr [Fin (sum_list lives / sqrt 2), Fin (Max (set lives) / sqrt 2), ent, b1, b2, l1, l2]"
    using l by simp
  have neg: "sum_list lives / sqrt 2 < 0 \<and> Max (set lives) / sqrt 2 < 0"
    if all: "list_all (\<lambda>(b, d). d < b) pairs"
  proof -
    have each: "\<And>x. x \<in> set lives \<Longrightarrow> x < 0"
      using all by (auto simp: lives_def list_all_iff)
    have lne: "lives \<noteq> []" using assms by (simp add: lives_def)
    have "sum_list lives < 0"
      using each lne
    proof (induction lives)
      case Nil
      then show ?case by simp
    next
      case (Cons a as)
      show ?case
      proof (cases "as = []")
        case True
        then show ?thesis using Cons.prems(1) [of a] by simp
      next
        case False
        then have "sum_list as < 0" using Cons.IH Cons.prems(1) by simp
        moreover have "a < 0" using Cons.prems(1) by simp
        ultimately show ?thesis by simp
      qed
    qed
    moreover have "Max (set lives) < 0"
      using each lne by (simp add: Max_less_iff)
    ultimately show ?thesis by (simp add: divide_neg_pos)
  qed
  show ?thesis
    using neg by (simp add: feature_def f d0_def [symmetric] lives_def [symmetric])
qed

theorem lives_are_signed_witness:
  "feature 0 (get_diagram_features (finite_pair_diagram [(1, 0), (3, 1)])) =
     Some (Fin (- 3 / sqrt 2))
   \<and> feature 1 (get_diagram_features (finite_pair_diagram [(1, 0), (3, 1)])) =
     Some (Fin (- 1 / sqrt 2))
   \<and> - 3 / sqrt 2 < (0::real) \<and> - 1 / sqrt 2 < (0::real)"
  using lives_are_signed [of "[(1, 0), (3, 1)]"] by simp

text \<open>
  Claim C10 as stated fails: the notebook validates nothing. A row of three entries is
  accepted, and the result is the feature vector of the pair \<open>(0, 1)\<close>.
\<close>

theorem extract_accepts_wrong_arity_counterexample:
  "get_diagram_features [[Num 0, Num 1, Num 5]] =
     Inr [Fin (1 / sqrt 2), Fin (1 / sqrt 2), Fin 0, Fin 1, Fin 1, Fin (1 / 4),
          Fin (sqrt (1 / 12))]"
  by (simp add: feature_defs Let_def upt_rec less_eq_prod_def power2_eq_square)

text \<open>
  Claim C10, amended. There is no InvalidDiagram error. Every diagram of shape \<open>(n, k)\<close>
  with \<open>k \<ge> 2\<close>, its entries finite or infinite, is accepted and gives a vector of seven
  features; a diagram of fewer than two columns that still has a row after the rows
  with an infinity are removed fails with Python's IndexError.
\<close>

theorem extract_no_validation:
  assumes "has_shape diagram k"
  shows "(2 \<le> k \<longrightarrow> (\<exists>v. get_diagram_features diagram = Inr v \<and> length v = 7))
    \<and> (k < 2 \<and> remove_inf_rows diagram \<noteq> [] \<longrightarrow>
          get_diagram_features diagram = Inl IndexError)"
proof (intro conjI impI)
  assume k: "2 \<le> k"
  obtain lives ent b1 b2 l1 l2 where "get_diagram_features diagram =
      Inr [Fin (sum_list lives / sqrt 2), Fin (Max (set lives) / sqrt 2), ent, b1, b2, l1, l2]"
    using get_diagram_features_shape [OF assms k] by (elim exE conjE)
  then show "\<exists>v. get_diagram_features diagram = Inr v \<and> length v = 7" by simp
next
  assume "k < 2 \<and> remove_inf_rows diagram \<noteq> []"
  then show "get_diagram_features diagram = Inl IndexError"
    using get_diagram_features_index_error [OF assms] by simp
qed

theorem extract_no_validation_witness:
  "(\<exists>v. get_diagram_features [[Num 0, Num 1, Num 5], [Num 2, PosInf, Num 0]] = Inr v
        \<and> length v = 7)
   \<and> get_diagram_features [[Num 0], [PosInf]] = Inl IndexError"
  using extract_no_validation [of "[[Num 0, Num 1, Num 5], [Num 2, PosInf, Num 0]]" 3]
    extract_no_validation [of "[[Num 0], [PosInf]]" 1]
  by (simp add: has_shape_def remove_inf_rows_def)



text \<open>The single pair \<open>(b, d)\<close> with \<open>b < d\<close>, function by function.\<close>

lemma entropy_single: "l \<noteq> 0 \<Longrightarrow> get_diagram_entropy [l] = Inr (Fin 0)"
  by (simp add: get_diagram_entropy_def py_sum_def np_sum_def np_div_def)

lemma betti_single:
  assumes "b < d"
  shows "get_area_under_betti_curve [[b, d]] = Inr (Fin (d - b), Fin (sqrt (d - b)))"
  using assms
  by (simp add: get_area_under_betti_curve_def column_def argsort_def gather_def betti_step_def
      np_sqrt_def Let_def upt_rec)

lemma return_points_single:
  assumes "b < d"
  shows "getLandscapeReturnPoints [[b, d]] = Inr [(b, 0), ((d + b) / 2, (d - b) / 2), (d, 0)]"
  using assms
  by (simp add: getLandscapeReturnPoints_def getLandscapePoints_def column_def gather_def
      select_mask_def argsort_def lexsort_def np_unique_rows_def return_points_at_def
      Let_def upt_rec less_eq_prod_def)

lemma landscape_fold_single:
  "fold (landscape_step [(b, 0), ((d + b) / 2, (d - b) / 2), (d, 0)]) [0..<2] (0, 0) =
     ((d - b)\<^sup>2 / 4, (d - b) ^ 3 / 12)"
  by (simp add: landscape_step_def l2areaUnderLine_def upt_rec power2_eq_square
      power3_eq_cube field_simps)

lemma landscape_single:
  assumes "b < d"
  shows "get_area_under_landscape [[b, d]] =
    Inr (Fin ((d - b)\<^sup>2 / 4), Fin (sqrt ((d - b) ^ 3 / 12)))"
proof -
  have "0 \<le> (d - b) ^ 3 / 12" using assms by simp
  then have sq: "np_sqrt ((d - b) ^ 3 / 12) = Fin (sqrt ((d - b) ^ 3 / 12))"
    unfolding np_sqrt_def by (simp only: not_less [symmetric] if_False)
  have len: "length [(b, 0::real), ((d + b) / 2, (d - b) / 2), (d, 0)] - 1 = 2" by simp
  have "length [[b, d]] \<noteq> 0" by simp
  then show ?thesis
    by (simp only: get_area_under_landscape_def return_points_single [OF assms] sum.case
        len landscape_fold_single prod.case sq if_False)
qed


text \<open>
  Claim C5. For the diagram of a single finite pair \<open>(b, d)\<close> with \<open>d > b\<close>, the total
  life and the maximal life are \<open>(d - b) / sqrt 2\<close>, the entropy is 0, and the areas under
  the Betti curve are \<open>d - b\<close> and \<open>sqrt (d - b)\<close>. The two landscape areas, which the
  claim leaves open, are \<open>(d - b)\<^sup>2 / 4\<close> and \<open>sqrt ((d - b)\<^sup>3 / 12)\<close>.
\<close>

theorem extract_single_pair:
  assumes "b < d"
  shows "get_diagram_features (finite_pair_diagram [(b, d)]) =
     Inr [Fin ((d - b) / sqrt 2), Fin ((d - b) / sqrt 2), Fin 0, Fin (d - b),
          Fin (sqrt (d - b)), Fin ((d - b)\<^sup>2 / 4), Fin (sqrt ((d - b) ^ 3 / 12))]"
proof -
  have rows: "remove_inf_rows (finite_pair_diagram [(b, d)]) = [[b, d]]"
    by (simp add: remove_inf_rows_def finite_pair_diagram_def)
  have lives: "get_diagram_lives [[b, d]] = Inr [d - b]"
    by (simp add: get_diagram_lives_def column_def)
  have ent: "get_diagram_entropy [d - b] = Inr (Fin 0)"
    using assms by (intro entropy_single) simp
  show ?thesis
    by (simp add: get_diagram_features_def rows lives ent betti_single [OF assms]
        landscape_single [OF assms] py_sum_def)
qed

theorem extract_single_pair_witness:
  "get_diagram_features (finite_pair_diagram [(1, 3)]) =
     Inr [Fin (2 / sqrt 2), Fin (2 / sqrt 2), Fin 0, Fin 2, Fin (sqrt 2), Fin 1,
          Fin (sqrt (8 / 12))]"
  using extract_single_pair [of 1 3] by simp

text \<open>The landscape areas depend on the set of rows only.\<close>

lemma np_unique_rows_cong: "set a = set b \<Longrightarrow> np_unique_rows a = np_unique_rows b"
proof -
  assume "set a = set b"
  then have "sorted_list_of_set (set a) = sorted_list_of_set (set b)" by simp
  then show ?thesis by (simp only: np_unique_rows_def sorted_list_of_set_sort_remdups)
qed

lemma get_area_under_landscape_cong:
  assumes "set a = set b"
  shows "get_area_under_landscape a = get_area_under_landscape b"
proof -
  have u: "np_unique_rows a = np_unique_rows b" using assms by (rule np_unique_rows_cong)
  have "getLandscapePoints a = getLandscapePoints b"
    by (simp only: getLandscapePoints_def u)
  then have "getLandscapeReturnPoints a = getLandscapeReturnPoints b"
    by (simp only: getLandscapeReturnPoints_def)
  moreover have "(length a = 0) = (length b = 0)" using assms by (metis length_0_conv set_empty)
  ultimately show ?thesis by (simp only: get_area_under_landscape_def)
qed

lemma remove_inf_rows_finite_pair_diagram:
  "remove_inf_rows (finite_pair_diagram pairs) = map (\<lambda>(b, d). [b, d]) pairs"
  unfolding finite_pair_diagram_def remove_inf_rows_def
  by (induction pairs) (auto simp: case_prod_beta)

lemma has_shape_finite_pair_diagram: "has_shape (finite_pair_diagram pairs) 2"
  by (auto simp: finite_pair_diagram_def has_shape_def list_all_iff)

lemma landscape_features:
  "\<exists>l1 l2. get_area_under_landscape (map (\<lambda>(b, d). [b, d]) pairs) = Inr (l1, l2)
     \<and> feature 5 (get_diagram_features (finite_pair_diagram pairs)) = Some l1
     \<and> feature 6 (get_diagram_features (finite_pair_diagram pairs)) = Some l2"
proof -
  obtain lives ent b1 b2 l1 l2 where
    "get_area_under_landscape (remove_inf_rows (finite_pair_diagram pairs)) = Inr (l1, l2)"
    "get_diagram_features (finite_pair_diagram pairs) =
       Inr [Fin (sum_list lives / sqrt 2), Fin (Max (set lives) / sqrt 2), ent, b1, b2, l1, l2]"
    using get_diagram_features_shape [OF has_shape_finite_pair_diagram [of pairs] order_refl]
    by (elim exE conjE)
  then show ?thesis
    by (simp add: remove_inf_rows_finite_pair_diagram feature_def)
qed

lemma landscape_features_cong:
  assumes "set pairs' = set pairs"
  shows "feature 5 (get_diagram_features (finite_pair_diagram pairs')) =
           feature 5 (get_diagram_features (finite_pair_diagram pairs))
    \<and> feature 6 (get_diagram_features (finite_pair_diagram pairs')) =
           feature 6 (get_diagram_features (finite_pair_diagram pairs))"
proof -
  have "set (map (\<lambda>(b, d). [b, d]) pairs') = set (map (\<lambda>(b, d). [b::real, d]) pairs)"
    using assms by simp
  then have "get_area_under_landscape (map (\<lambda>(b, d). [b, d]) pairs') =
      get_area_under_landscape (map (\<lambda>(b, d). [b, d]) pairs)"
    by (rule get_area_under_landscape_cong)
  then show ?thesis
    using landscape_features [of pairs] landscape_features [of pairs'] by auto
qed


text \<open>
  Claim C4. For every non-empty diagram of finite pairs, the two landscape-area features
  stay the same under any permutation of the rows and when a copy of one of the rows is
  inserted at any position; and they are values, not errors.
\<close>

theorem landscape_area_invariant:
  assumes "pairs \<noteq> []"
  shows "(mset pairs' = mset pairs \<longrightarrow>
            feature 5 (get_diagram_features (finite_pair_diagram pairs')) =
              feature 5 (get_diagram_features (finite_pair_diagram pairs))
          \<and> feature 6 (get_diagram_features (finite_pair_diagram pairs')) =
              feature 6 (get_diagram_features (finite_pair_diagram pairs)))
    \<and> (r \<in> set pairs \<longrightarrow>
            feature 5 (get_diagram_features (finite_pair_diagram (take j pairs @ r # drop j pairs))) =
              feature 5 (get_diagram_features (finite_pair_diagram pairs))
          \<and> feature 6 (get_diagram_features (finite_pair_diagram (take j pairs @ r # drop j pairs))) =
              feature 6 (get_diagram_features (finite_pair_diagram pairs)))
    \<and> (\<exists>l1 l2. feature 5 (get_diagram_features (finite_pair_diagram pairs)) = Some l1
              \<and> feature 6 (get_diagram_features (finite_pair_diagram pairs)) = Some l2)"
proof (intro conjI impI)
  assume "mset pairs' = mset pairs"
  then have s: "set pairs' = set pairs" by (rule mset_eq_setD)
  show "feature 5 (get_diagram_features (finite_pair_diagram pairs')) =
      feature 5 (get_diagram_features (finite_pair_diagram pairs))"
    and "feature 6 (get_diagram_features (finite_pair_diagram pairs')) =
      feature 6 (get_diagram_features (finite_pair_diagram pairs))"
    using landscape_features_cong [OF s] by simp_all
next
  assume "r \<in> set pairs"
  have "set (take j pairs) \<union> set (drop j pairs) = set pairs"
    using set_append [of "take j pairs" "drop j pairs"] by (simp only: append_take_drop_id)
  then have eq: "set (take j pairs @ r # drop j pairs) = set pairs"
    using \<open>r \<in> set pairs\<close> by auto
  show "feature 5 (get_diagram_features (finite_pair_diagram (take j pairs @ r # drop j pairs))) =
      feature 5 (get_diagram_features (finite_pair_diagram pairs))"
    and "feature 6 (get_diagram_features (finite_pair_diagram (take j pairs @ r # drop j pairs))) =
      feature 6 (get_diagram_features (finite_pair_diagram pairs))"
    using landscape_features_cong [OF eq] by simp_all
next
  show "\<exists>l1 l2. feature 5 (get_diagram_features (finite_pair_diagram pairs)) = Some l1
      \<and> feature 6 (get_diagram_features (finite_pair_diagram pairs)) = Some l2"
    using landscape_features [of pairs] by blast
qed

theorem landscape_area_invariant_witness:
  "feature 5 (get_diagram_features (finite_pair_diagram [(1, 3), (0, 2)])) =
     feature 5 (get_diagram_features (finite_pair_diagram [(0, 2), (1, 3)]))
   \<and> feature 6 (get_diagram_features (finite_pair_diagram [(1, 3), (0, 2)])) =
     feature 6 (get_diagram_features (finite_pair_diagram [(0, 2), (1, 3)]))
   \<and> feature 5 (get_diagram_features (finite_pair_diagram [(0, 2), (0, 2), (1, 3)])) =
     feature 5 (get_diagram_features (finite_pair_diagram [(0, 2), (1, 3)]))
   \<and> feature 6 (get_diagram_features (finite_pair_diagram [(0, 2), (0, 2), (1, 3)])) =
     feature 6 (get_diagram_features (finite_pair_diagram [(0, 2), (1, 3)]))"
  using landscape_area_invariant [of "[(0, 2), (1, 3)]" "[(1, 3), (0, 2)]" "(0, 2)" 1]
  by simp


section \<open>The window aggregation\<close>

lemma window_cells:
  assumes "i < length xs"
  shows "drop (i + 1 - n) (take (i + 1) xs) = map (\<lambda>t. xs ! t) [i + 1 - n..<i + 1]"
proof -
  have "take (i + 1) xs = map (\<lambda>t. xs ! t) [0..<i + 1]"
    using assms by (intro nth_equalityI) (simp_all del: upt_Suc)
  then show ?thesis by (simp add: drop_map del: upt_Suc)
qed

lemma length_map_filter_id_le: "length (List.map_filter id cs) \<le> length cs"
  by (induction cs) (simp_all add: map_filter_simps split: option.splits)

lemma map_filter_id_complete:
  "list_all (\<lambda>c. c \<noteq> None) cs \<Longrightarrow> List.map_filter id cs = map the cs"
  by (induction cs) (auto simp: map_filter_simps split: option.splits)

lemma length_map_filter_id_less:
  "\<not> list_all (\<lambda>c. c \<noteq> None) cs \<Longrightarrow> length (List.map_filter id cs) < length cs"
proof (induction cs)
  case Nil
  then show ?case by simp
next
  case (Cons c cs)
  show ?case
  proof (cases c)
    case None
    have "length (List.map_filter id cs) \<le> length cs" by (rule length_map_filter_id_le)
    then show ?thesis using None by (simp add: map_filter_simps id_def)
  next
    case (Some x)
    then have "\<not> list_all (\<lambda>c. c \<noteq> None) cs" using Cons.prems by simp
    then have "length (List.map_filter id cs) < length cs" by (rule Cons.IH)
    then show ?thesis using Some by (simp add: map_filter_simps id_def)
  qed
qed

lemma rolling_obs_window:
  assumes "i < length xs"
  shows "rolling_obs xs n i = List.map_filter id (map (\<lambda>t. xs ! t) [i + 1 - n..<i + 1])"
  by (simp only: rolling_obs_def window_cells [OF assms])

lemma rolling_obs_short:
  assumes "i < length xs" "i + 1 < n"
  shows "length (rolling_obs xs n i) < n"
proof -
  have "length (rolling_obs xs n i) \<le> length (map (\<lambda>t. xs ! t) [i + 1 - n..<i + 1])"
    unfolding rolling_obs_window [OF assms(1)] by (rule length_map_filter_id_le)
  then show ?thesis using assms(2) by (simp del: upt_Suc)
qed

lemma rolling_obs_missing:
  assumes "i < length xs" "\<not> list_all (\<lambda>t. xs ! t \<noteq> None) [i + 1 - n..<i + 1]"
  shows "length (rolling_obs xs n i) < n"
proof -
  have "\<not> list_all (\<lambda>c. c \<noteq> None) (map (\<lambda>t. xs ! t) [i + 1 - n..<i + 1])"
    using assms(2) by (simp add: list_all_iff del: upt_Suc)
  then have "length (rolling_obs xs n i) < length (map (\<lambda>t. xs ! t) [i + 1 - n..<i + 1])"
    unfolding rolling_obs_window [OF assms(1)] by (rule length_map_filter_id_less)
  then show ?thesis by (simp del: upt_Suc)
qed

lemma rolling_obs_complete:
  assumes "i < length xs" "n \<le> i + 1" "list_all (\<lambda>t. xs ! t \<noteq> None) [i + 1 - n..<i + 1]"
  shows "rolling_obs xs n i = map (\<lambda>t. the (xs ! t)) [i + 1 - n..<i + 1]"
    and "length (rolling_obs xs n i) = n"
proof -
  have "list_all (\<lambda>c. c \<noteq> None) (map (\<lambda>t. xs ! t) [i + 1 - n..<i + 1])"
    using assms(3) by (simp add: list_all_iff del: upt_Suc)
  then have "rolling_obs xs n i = map the (map (\<lambda>t. xs ! t) [i + 1 - n..<i + 1])"
    unfolding rolling_obs_window [OF assms(1)] by (rule map_filter_id_complete)
  then show "rolling_obs xs n i = map (\<lambda>t. the (xs ! t)) [i + 1 - n..<i + 1]"
    by (simp add: comp_def del: upt_Suc)
  then show "length (rolling_obs xs n i) = n" using assms(2) by (simp del: upt_Suc)
qed

lemma rolling_mean_nth:
  assumes "i < length xs"
  shows "rolling_mean xs n ! i =
    (if length (rolling_obs xs n i) < n \<or> length (rolling_obs xs n i) = 0 then None
     else Some (mean (rolling_obs xs n i)))"
  using assms by (simp add: rolling_mean_def Let_def del: upt_Suc)

lemma rolling_std_nth:
  assumes "i < length xs"
  shows "rolling_std xs n ! i =
    (if length (rolling_obs xs n i) < n \<or> length (rolling_obs xs n i) \<le> 1 then None
     else Some (sample_std (rolling_obs xs n i)))"
  using assms by (simp add: rolling_std_def Let_def del: upt_Suc)

lemma frame_rolling_shape:
  assumes "has_shape rows k"
  shows "frame_rolling stat rows n =
    map (\<lambda>i. map (\<lambda>j. stat (map (\<lambda>row. row ! j) rows) n ! i) [0..<k]) [0..<length rows]"
proof (cases rows)
  case Nil
  then show ?thesis by (simp add: frame_rolling_def frame_columns_def frame_of_columns_def)
next
  case (Cons r rs)
  then have "length r = k" using assms by (simp add: has_shape_def)
  then have "frame_columns rows = map (\<lambda>j. map (\<lambda>row. row ! j) rows) [0..<k]"
    using Cons by (simp add: frame_columns_def)
  then show ?thesis
    by (simp add: frame_rolling_def frame_of_columns_def comp_def)
qed

lemma zip_index_map2:
  "zip xs (map2 f (map g xs) (map h xs)) = map (\<lambda>x. (x, f (g x) (h x))) xs"
  by (induction xs) simp_all

lemma window_features_shape:
  assumes "has_shape rows k"
  shows "window_features rows n =
    filter (\<lambda>(i, r). list_all (\<lambda>c. c \<noteq> None) r)
      (map (\<lambda>i. (i, map (\<lambda>j. rolling_mean (map (\<lambda>row. row ! j) rows) n ! i) [0..<k] @
                     map (\<lambda>j. rolling_std (map (\<lambda>row. row ! j) rows) n ! i) [0..<k]))
         [0..<length rows])"
  by (simp only: window_features_def Let_def dropna_def concat_columns_def
      frame_rolling_shape [OF assms] zip_index_map2)

lemma filter_from: "filter (\<lambda>i. a \<le> i \<and> W i) [0..<m] = filter W [a..<m]"
proof -
  have "filter (\<lambda>i. a \<le> i) [0..<m] = [a..<m]"
    by (induction m) (auto simp: not_less_eq_eq)
  then have "filter W (filter (\<lambda>i. a \<le> i) [0..<m]) = filter W [a..<m]" by simp
  then show ?thesis by (simp add: conj_commute)
qed

lemma column_window:
  assumes "i < length rows"
  shows "list_all (\<lambda>t. map (\<lambda>row. row ! j) rows ! t \<noteq> None) [i + 1 - n..<i + 1] =
         list_all (\<lambda>t. rows ! t ! j \<noteq> None) [i + 1 - n..<i + 1]"
    and "map (\<lambda>t. the (map (\<lambda>row. row ! j) rows ! t)) [i + 1 - n..<i + 1] =
         window_values rows n i j"
  using assms by (auto simp: list_all_iff window_values_def simp del: upt_Suc)

lemma length_window_values: "n \<le> i + 1 \<Longrightarrow> length (window_values rows n i j) = n"
  by (simp add: window_values_def del: upt_Suc)

lemma cell_incomplete:
  assumes "i < length rows" "\<not> column_complete rows n i j"
  shows "length (rolling_obs (map (\<lambda>row. row ! j) rows) n i) < n"
proof (cases "n \<le> i + 1")
  case True
  then have "\<not> list_all (\<lambda>t. map (\<lambda>row. row ! j) rows ! t \<noteq> None) [i + 1 - n..<i + 1]"
    using assms by (simp only: column_window(1) [OF assms(1)] column_complete_def) simp
  then show ?thesis using assms(1) by (intro rolling_obs_missing) simp_all
next
  case False
  then show ?thesis using assms(1) by (intro rolling_obs_short) simp_all
qed

lemma cell_complete:
  assumes "i < length rows" "column_complete rows n i j"
  shows "rolling_obs (map (\<lambda>row. row ! j) rows) n i = window_values rows n i j"
proof -
  have "n \<le> i + 1" using assms(2) by (simp add: column_complete_def)
  moreover have "list_all (\<lambda>t. map (\<lambda>row. row ! j) rows ! t \<noteq> None) [i + 1 - n..<i + 1]"
    using assms(2) by (simp only: column_window(1) [OF assms(1)] column_complete_def) 
  moreover have "i < length (map (\<lambda>row. row ! j) rows)" using assms(1) by simp
  ultimately have "rolling_obs (map (\<lambda>row. row ! j) rows) n i =
      map (\<lambda>t. the (map (\<lambda>row. row ! j) rows ! t)) [i + 1 - n..<i + 1]"
    by (intro rolling_obs_complete(1))
  then show ?thesis by (simp only: column_window(2) [OF assms(1)])
qed

lemma cell_mean:
  assumes "i < length rows" "1 \<le> n"
  shows "rolling_mean (map (\<lambda>row. row ! j) rows) n ! i =
    (if column_complete rows n i j then Some (window_mean rows n i j) else None)"
proof (cases "column_complete rows n i j")
  case True
  have len: "length (window_values rows n i j) = n"
    using True by (intro length_window_values) (simp add: column_complete_def)
  show ?thesis
    using assms True
    by (simp add: rolling_mean_nth cell_complete [OF assms(1) True] len mean_def
        window_mean_def)
next
  case False
  then show ?thesis
    using assms cell_incomplete [OF assms(1) False] by (simp add: rolling_mean_nth)
qed

lemma cell_std:
  assumes "i < length rows" "2 \<le> n"
  shows "rolling_std (map (\<lambda>row. row ! j) rows) n ! i =
    (if column_complete rows n i j then Some (window_std rows n i j) else None)"
proof (cases "column_complete rows n i j")
  case True
  have len: "length (window_values rows n i j) = n"
    using True by (intro length_window_values) (simp add: column_complete_def)
  show ?thesis
    using assms True
    by (simp add: rolling_std_nth cell_complete [OF assms(1) True] len mean_def
        sample_std_def window_mean_def window_std_def)
next
  case False
  then show ?thesis
    using assms cell_incomplete [OF assms(1) False] by (simp add: rolling_std_nth)
qed

lemma cell_std_single:
  assumes "i < length rows"
  shows "rolling_std (map (\<lambda>row. row ! j) rows) 1 ! i = None"
proof -
  have "length (rolling_obs (map (\<lambda>row. row ! j) rows) 1 i)
      \<le> length (map (\<lambda>t. map (\<lambda>row. row ! j) rows ! t) [i + 1 - 1..<i + 1])"
    using assms by (simp only: rolling_obs_window length_map) (rule length_map_filter_id_le [where cs = "map _ _", simplified length_map])
  then have "length (rolling_obs (map (\<lambda>row. row ! j) rows) 1 i) \<le> 1" by simp
  then show ?thesis using assms by (simp add: rolling_std_nth)
qed

lemma window_complete_columns:
  assumes "has_shape rows k" "i < length rows"
  shows "window_complete rows n i \<longleftrightarrow>
    (\<forall>j<k. list_all (\<lambda>t. rows ! t ! j \<noteq> None) [i + 1 - n..<i + 1])"
proof -
  have row: "list_all (\<lambda>c. c \<noteq> None) (rows ! t) \<longleftrightarrow> (\<forall>j<k. rows ! t ! j \<noteq> None)"
    if "t < i + 1" for t
  proof -
    have "rows ! t \<in> set rows" using that assms(2) by simp
    then have "length (rows ! t) = k" using assms(1) by (simp add: has_shape_def list_all_iff)
    then show ?thesis by (simp add: list_all_length)
  qed
  have "window_complete rows n i \<longleftrightarrow>
      (\<forall>t\<in>set [i + 1 - n..<i + 1]. list_all (\<lambda>c. c \<noteq> None) (rows ! t))"
    unfolding window_complete_def by (rule list_all_iff)
  also have "\<dots> \<longleftrightarrow> (\<forall>t\<in>set [i + 1 - n..<i + 1]. \<forall>j<k. rows ! t ! j \<noteq> None)"
    by (intro ball_cong refl row) (simp del: upt_Suc)
  also have "\<dots> \<longleftrightarrow> (\<forall>j<k. \<forall>t\<in>set [i + 1 - n..<i + 1]. rows ! t ! j \<noteq> None)" by blast
  finally show ?thesis by (simp only: list_all_iff)
qed

lemma all_columns_complete:
  assumes "has_shape rows k" "1 \<le> k" "i < length rows"
  shows "(\<forall>j<k. column_complete rows n i j) \<longleftrightarrow> (n - 1 \<le> i \<and> window_complete rows n i)"
proof -
  have "(\<forall>j<k. column_complete rows n i j) \<longleftrightarrow>
      (n \<le> i + 1 \<and> (\<forall>j<k. list_all (\<lambda>t. rows ! t ! j \<noteq> None) [i + 1 - n..<i + 1]))"
    unfolding column_complete_def using assms(2) by auto
  also have "\<dots> \<longleftrightarrow> (n - 1 \<le> i \<and> window_complete rows n i)"
    unfolding window_complete_columns [OF assms(1) assms(3)] by auto
  finally show ?thesis .
qed

lemma rolling_row:
  assumes "i < length rows" "2 \<le> n"
  shows "map (\<lambda>j. rolling_mean (map (\<lambda>row. row ! j) rows) n ! i) [0..<k] @
         map (\<lambda>j. rolling_std (map (\<lambda>row. row ! j) rows) n ! i) [0..<k] =
         map (\<lambda>j. if column_complete rows n i j then Some (window_mean rows n i j) else None) [0..<k] @
         map (\<lambda>j. if column_complete rows n i j then Some (window_std rows n i j) else None) [0..<k]"
proof -
  have "1 \<le> n" using assms(2) by simp
  then show ?thesis
    by (simp only: cell_mean [OF assms(1)] cell_std [OF assms])
qed

lemma rolling_row_kept:
  assumes "has_shape rows k" "1 \<le> k" "i < length rows" "2 \<le> n"
  shows "list_all (\<lambda>c. c \<noteq> None)
           (map (\<lambda>j. rolling_mean (map (\<lambda>row. row ! j) rows) n ! i) [0..<k] @
            map (\<lambda>j. rolling_std (map (\<lambda>row. row ! j) rows) n ! i) [0..<k])
         \<longleftrightarrow> (n - 1 \<le> i \<and> window_complete rows n i)"
proof -
  have "list_all (\<lambda>c. c \<noteq> None)
           (map (\<lambda>j. rolling_mean (map (\<lambda>row. row ! j) rows) n ! i) [0..<k] @
            map (\<lambda>j. rolling_std (map (\<lambda>row. row ! j) rows) n ! i) [0..<k])
        \<longleftrightarrow> (\<forall>j<k. column_complete rows n i j)"
    unfolding rolling_row [OF assms(3,4)] by (auto simp: list_all_iff)
  then show ?thesis by (simp only: all_columns_complete [OF assms(1,2,3)])
qed

lemma rolling_row_value:
  assumes "has_shape rows k" "1 \<le> k" "i < length rows" "2 \<le> n"
    "n - 1 \<le> i" "window_complete rows n i"
  shows "map (\<lambda>j. rolling_mean (map (\<lambda>row. row ! j) rows) n ! i) [0..<k] @
         map (\<lambda>j. rolling_std (map (\<lambda>row. row ! j) rows) n ! i) [0..<k] =
         window_row rows k n i"
proof -
  have "\<forall>j<k. column_complete rows n i j"
    using assms(5,6) by (simp only: all_columns_complete [OF assms(1,2,3)])
  then show ?thesis
    unfolding rolling_row [OF assms(3,4)] window_row_def by simp
qed

lemma window_features_windows:
  assumes "has_shape rows k" "1 \<le> k" "2 \<le> n"
  shows "window_features rows n =
    map (\<lambda>i. (i, window_row rows k n i)) (filter (window_complete rows n) [n - 1..<length rows])"
proof -
  let ?h = "\<lambda>i. (i, map (\<lambda>j. rolling_mean (map (\<lambda>row. row ! j) rows) n ! i) [0..<k] @
                     map (\<lambda>j. rolling_std (map (\<lambda>row. row ! j) rows) n ! i) [0..<k])"
  let ?P = "\<lambda>(i :: nat, r :: cell list). list_all (\<lambda>c. c \<noteq> None) r"
  let ?Q = "\<lambda>i. n - 1 \<le> i \<and> window_complete rows n i"
  have "window_features rows n = filter ?P (map ?h [0..<length rows])"
    using assms(1) by (rule window_features_shape)
  also have "\<dots> = map ?h (filter (?P \<circ> ?h) [0..<length rows])"
    by (rule filter_map)
  also have "filter (?P \<circ> ?h) [0..<length rows] = filter ?Q [0..<length rows]"
  proof (rule filter_cong [OF refl])
    fix i assume "i \<in> set [0..<length rows]"
    then have i: "i < length rows" by simp
    show "(?P \<circ> ?h) i = ?Q i"
      using rolling_row_kept [OF assms(1,2) i assms(3)] by simp
  qed
  also have "map ?h (filter ?Q [0..<length rows]) =
      map (\<lambda>i. (i, window_row rows k n i)) (filter ?Q [0..<length rows])"
  proof (rule map_cong [OF refl])
    fix i assume "i \<in> set (filter ?Q [0..<length rows])"
    then have i: "i < length rows" and q: "n - 1 \<le> i" "window_complete rows n i" by simp_all
    show "?h i = (i, window_row rows k n i)"
      using rolling_row_value [OF assms(1,2) i assms(3) q] by simp
  qed
  also have "filter ?Q [0..<length rows] = filter (window_complete rows n) [n - 1..<length rows]"
    by (rule filter_from)
  finally show ?thesis .
qed

lemma all_windows_complete:
  assumes "list_all (list_all (\<lambda>c. c \<noteq> None)) rows"
  shows "filter (window_complete rows n) [a..<length rows] = [a..<length rows]"
proof -
  have "window_complete rows n i" if "i < length rows" for i
  proof -
    have "list_all (\<lambda>c. c \<noteq> None) (rows ! t)" if "t < i + 1" for t
    proof -
      have "rows ! t \<in> set rows" using that \<open>i < length rows\<close> by simp
      then show ?thesis using assms by (simp add: list_all_iff)
    qed
    then have "\<forall>t\<in>set [i + 1 - n..<i + 1]. list_all (\<lambda>c. c \<noteq> None) (rows ! t)"
      by (simp del: upt_Suc)
    then show ?thesis unfolding window_complete_def by (rule list_all_iff [THEN iffD2])
  qed
  then show ?thesis by (simp add: filter_id_conv)
qed

text \<open>
  Claim C7. For every frame of feature rows with at least one column and every number
  \<open>n \<ge> 2\<close> of subwindows per window, the output has rows only at indices
  \<open>i \<ge> n - 1\<close>, and the row at index \<open>i\<close> is the column means followed by the column
  sample standard deviations (denominator \<open>n - 1\<close>) over the input rows \<open>i - n + 1 .. i\<close>.
  A window that holds a NaN gives no row; without NaN every index from \<open>n - 1\<close> on has
  its row.
\<close>

theorem window_features_rolling:
  assumes "has_shape rows k" "1 \<le> k" "2 \<le> n"
  shows "window_features rows n =
      map (\<lambda>i. (i, window_row rows k n i))
        (filter (window_complete rows n) [n - 1..<length rows])
    \<and> (list_all (list_all (\<lambda>c. c \<noteq> None)) rows \<longrightarrow>
         window_features rows n =
           map (\<lambda>i. (i, window_row rows k n i)) [n - 1..<length rows])"
  using window_features_windows [OF assms] all_windows_complete [of rows n "n - 1"] by simp

theorem window_features_rolling_witness:
  "window_features [[Some 1], [Some 3], [Some 5]] 2 =
     [(1, [Some 2, Some (sqrt 2)]), (2, [Some 4, Some (sqrt 2)])]"
proof -
  let ?rows = "[[Some 1], [Some 3], [Some (5 :: real)]]"
  have "list_all (list_all (\<lambda>c. c \<noteq> None)) ?rows \<longrightarrow>
      window_features ?rows 2 = map (\<lambda>i. (i, window_row ?rows 1 2 i)) [2 - 1..<length ?rows]"
    by (rule window_features_rolling [of ?rows 1 2, THEN conjunct2])
      (simp_all add: has_shape_def)
  moreover have "list_all (list_all (\<lambda>c. c \<noteq> None)) ?rows" by simp
  ultimately have "window_features ?rows 2 =
      map (\<lambda>i. (i, window_row ?rows 1 2 i)) [2 - 1..<length ?rows]"
    by (rule mp)
  moreover have "[2 - 1..<length ?rows] = [1, 2]" by (simp add: upt_rec)
  moreover have "window_row ?rows 1 2 1 = [Some 2, Some (sqrt 2)]"
    by (simp add: window_row_def window_mean_def window_std_def window_values_def upt_rec)
  moreover have "window_row ?rows 1 2 2 = [Some 4, Some (sqrt 2)]"
    by (simp add: window_row_def window_mean_def window_std_def window_values_def upt_rec)
  ultimately show ?thesis by (simp only: list.map)
qed

lemma cell_mean_single:
  assumes "i < length rows"
  shows "rolling_mean (map (\<lambda>row. row ! j) rows) 1 ! i = rows ! i ! j"
proof -
  have "rolling_obs (map (\<lambda>row. row ! j) rows) 1 i = List.map_filter id [rows ! i ! j]"
    using assms by (simp add: rolling_obs_window)
  then show ?thesis
    using assms
    by (cases "rows ! i ! j") (simp_all add: rolling_mean_nth map_filter_simps mean_def)
qed

lemma frame_rolling_mean_single:
  assumes "has_shape rows k"
  shows "frame_rolling rolling_mean rows 1 = rows"
proof -
  have "map (\<lambda>j. rolling_mean (map (\<lambda>row. row ! j) rows) 1 ! i) [0..<k] = rows ! i"
    if "i < length rows" for i
  proof -
    have "rows ! i \<in> set rows" using that by simp
    then have "length (rows ! i) = k" using assms by (simp add: has_shape_def list_all_iff)
    then show ?thesis
      by (intro nth_equalityI) (simp_all add: cell_mean_single [OF that] del: One_nat_def)
  qed
  then show ?thesis
    unfolding frame_rolling_shape [OF assms] by (intro nth_equalityI) simp_all
qed

lemma frame_rolling_std_single:
  assumes "has_shape rows k"
  shows "frame_rolling rolling_std rows 1 = map (\<lambda>r. replicate k None) rows"
  unfolding frame_rolling_shape [OF assms]
  by (intro nth_equalityI) (simp_all add: cell_std_single del: One_nat_def)

lemma window_features_single_empty:
  assumes "has_shape rows k" "1 \<le> k"
  shows "window_features rows 1 = []"
proof -
  have "\<not> list_all (\<lambda>c. c \<noteq> None) (r @ replicate k None)" for r :: "cell list"
    using assms(2) by (cases k) simp_all
  then have "dropna (zip [0..<length rows] (concat_columns rows (map (\<lambda>r. replicate k None) rows))) = []"
    by (auto simp: dropna_def concat_columns_def filter_empty_conv in_set_zip)
  then show ?thesis
    by (simp only: window_features_def Let_def frame_rolling_mean_single [OF assms(1)]
        frame_rolling_std_single [OF assms(1)])
qed

text \<open>
  Claim C3 as stated fails. With one subwindow per window the sample standard deviation
  divides by \<open>N - 1 = 0\<close>: every standard-deviation cell is NaN, and \<open>dropna\<close> removes
  every row.
\<close>

theorem single_subwindow_counterexample:
  "window_features [[Some 1, Some 2], [Some 3, Some 4]] 1 = []
   \<and> window_features [[Some 1, Some 2], [Some 3, Some 4]] 1 \<noteq>
       [(0, [Some 1, Some 2, Some 0, Some 0]), (1, [Some 3, Some 4, Some 0, Some 0])]"
proof -
  have "window_features [[Some 1, Some 2], [Some 3, Some 4]] 1 = []"
    by (rule window_features_single_empty [where k = 2]) (simp_all add: has_shape_def)
  then show ?thesis by simp
qed

text \<open>
  Claim C3, amended. With one subwindow per window, and at least one column, the rolling
  mean of every row is the row itself, its rolling standard deviation is NaN in every
  column (\<open>ddof = 1\<close>), and so \<open>dropna\<close> leaves no output row at all.
\<close>

theorem window_features_single_subwindow:
  assumes "has_shape rows k" "1 \<le> k"
  shows "frame_rolling rolling_mean rows 1 = rows
    \<and> frame_rolling rolling_std rows 1 = map (\<lambda>r. replicate k None) rows
    \<and> window_features rows 1 = []"
  using frame_rolling_mean_single [OF assms(1)] frame_rolling_std_single [OF assms(1)]
    window_features_single_empty [OF assms]
  by simp

theorem window_features_single_subwindow_witness:
  "frame_rolling rolling_mean [[Some 1, Some 2], [Some 3, Some 4]] 1 =
     [[Some 1, Some 2], [Some 3, Some 4]]
   \<and> frame_rolling rolling_std [[Some 1, Some 2], [Some 3, Some 4]] 1 =
     [[None, None], [None, None]]
   \<and> window_features [[Some 1, Some 2], [Some 3, Some 4]] 1 = []"
  using window_features_single_subwindow [of "[[Some 1, Some 2], [Some 3, Some 4]]" 2]
  by (simp add: has_shape_def numeral_2_eq_2)

end
